theory Spec2Isabelle
  imports Complex_Main "HOL-Library.Word"
begin

unbundle bit_operations_syntax

chapter \<open>Soter file vault: a shallow embedding of the Go backend\<close>

text \<open>
  The development follows the Go sources of the backend: the permission model
  (\<^verbatim>\<open>models.Permission\<close>, \<^verbatim>\<open>ParseLinuxPermissions\<close>,
  \<^verbatim>\<open>FileRepository.calculateUserFilePermissions\<close>), the file validation service,
  the upload service, the delete handler, the rate limiting middleware and the ClamAV
  client. Identifiers of type \<^verbatim>\<open>uuid.UUID\<close> are natural numbers, a nullable
  \<^verbatim>\<open>*uuid.UUID\<close> is an option, Go strings and byte slices are lists of bytes
  (\<^typ>\<open>string\<close>), and Go's \<^verbatim>\<open>int\<close> and \<^verbatim>\<open>int64\<close> are
  \<^typ>\<open>int\<close>: none of the modelled operations can overflow 64 bits on the values the
  program handles.
\<close>

section \<open>Go primitives\<close>

type_synonym uuid = nat
type_synonym bytes = string

text \<open>Go's \<^verbatim>\<open>/\<close> and \<^verbatim>\<open>%\<close> on integers truncate towards zero.\<close>

definition go_div :: "int \<Rightarrow> int \<Rightarrow> int" where
  "go_div a b = sgn a * sgn b * (\<bar>a\<bar> div \<bar>b\<bar>)"

definition go_mod :: "int \<Rightarrow> int \<Rightarrow> int" where
  "go_mod a b = sgn a * (\<bar>a\<bar> mod \<bar>b\<bar>)"

text \<open>
  Go's \<^verbatim>\<open>int\<close> has 64 bits on the platforms the server is built for, and its
  arithmetic wraps around: \<open>wrap64\<close> takes the result over the integers to the value
  that the machine keeps.
\<close>

definition wrap64 :: "int \<Rightarrow> int" where
  "wrap64 x = (x + 2 ^ 63) mod 2 ^ 64 - 2 ^ 63"

text \<open>
  The conversion of an \<^verbatim>\<open>int\<close> to \<^verbatim>\<open>float64\<close>: the value is kept when it fits in
  the 53 bits of the significand, and is rounded to 53 significant bits, ties to even,
  when it does not. \<open>excess_bits\<close> is the number of bits beyond 53.
\<close>

function excess_bits :: "int \<Rightarrow> nat" where
  "excess_bits n = (if n < 2 ^ 53 then 0 else Suc (excess_bits (n div 2)))"
  by pat_completeness auto
termination
  by (relation "measure nat") auto

declare excess_bits.simps [simp del]

definition float64_of_int :: "int \<Rightarrow> rat" where
  "float64_of_int x =
     (let n = \<bar>x\<bar>;
          e = excess_bits n;
          q = n div 2 ^ e;
          r = n mod 2 ^ e;
          q' = (if 2 * r > 2 ^ e \<or> (2 * r = 2 ^ e \<and> odd q) then q + 1 else q)
      in of_int (sgn x * (q' * 2 ^ e)))"

text \<open>Digits of a number in a base from 2 to 16, most significant first (lower case).\<close>

definition digit_char :: "nat \<Rightarrow> char" where
  "digit_char d = ''0123456789abcdef'' ! (d mod 16)"

function digits_of :: "nat \<Rightarrow> nat \<Rightarrow> string" where
  "digits_of b n =
     (if b < 2 \<or> n < b then [digit_char n]
      else digits_of b (n div b) @ [digit_char (n mod b)])"
  by pat_completeness auto
termination
  by (relation "measure (\<lambda>(b, n). n)") auto

declare digits_of.simps [simp del]

lemma digits_of_last: "n < b \<Longrightarrow> digits_of b n = [digit_char n]"
  by (subst digits_of.simps) simp

lemma digits_of_more:
  "2 \<le> b \<Longrightarrow> b \<le> n \<Longrightarrow> digits_of b n = digits_of b (n div b) @ [digit_char (n mod b)]"
  by (subst digits_of.simps) simp

definition pad_zero :: "nat \<Rightarrow> string \<Rightarrow> string" where
  "pad_zero w s = replicate (w - length s) (CHR ''0'') @ s"

text \<open>\<^verbatim>\<open>fmt.Sprintf("%03o", n)\<close>: the sign counts towards the width of three.\<close>

definition sprintf_03o :: "int \<Rightarrow> string" where
  "sprintf_03o n =
     (if n < 0 then CHR ''-'' # pad_zero 2 (digits_of 8 (nat (- n)))
      else pad_zero 3 (digits_of 8 (nat n)))"

text \<open>\<^verbatim>\<open>fmt.Sprintf("%08x", n)\<close> for a non-negative \<^verbatim>\<open>n\<close>.\<close>

definition sprintf_08x :: "nat \<Rightarrow> string" where
  "sprintf_08x n = pad_zero 8 (digits_of 16 n)"

text \<open>\<^verbatim>\<open>fmt.Sprintf("%d", n)\<close>.\<close>

definition sprintf_d :: "int \<Rightarrow> string" where
  "sprintf_d n =
     (if n < 0 then CHR ''-'' # digits_of 10 (nat (- n)) else digits_of 10 (nat n))"

section \<open>Permissions (package models)\<close>

type_synonym Permission = int

definition PermissionExecute :: Permission where "PermissionExecute = 1"
definition PermissionWrite :: Permission where "PermissionWrite = 2"
definition PermissionRead :: Permission where "PermissionRead = 4"

definition HasPermission :: "Permission \<Rightarrow> Permission \<Rightarrow> bool" where
  "HasPermission p requested = (p AND requested = requested)"

definition CanRead :: "Permission \<Rightarrow> bool" where
  "CanRead p = HasPermission p PermissionRead"

definition CanWrite :: "Permission \<Rightarrow> bool" where
  "CanWrite p = HasPermission p PermissionWrite"

definition CanExecute :: "Permission \<Rightarrow> bool" where
  "CanExecute p = HasPermission p PermissionExecute"

definition GetOwnerPermissions :: "Permission \<Rightarrow> Permission" where
  "GetOwnerPermissions p = go_mod (go_div p 100) 10"

definition GetGroupPermissions :: "Permission \<Rightarrow> Permission" where
  "GetGroupPermissions p = go_mod (go_div p 10) 10"

definition GetOtherPermissions :: "Permission \<Rightarrow> Permission" where
  "GetOtherPermissions p = go_mod p 10"

record PermissionSet =
  ps_Read :: bool
  ps_Write :: bool
  ps_Execute :: bool

record FilePermissionCheck =
  chk_CanRead :: bool
  chk_CanWrite :: bool
  chk_CanDownload :: bool
  chk_CanDelete :: bool
  chk_CanShare :: bool
  chk_Owner :: PermissionSet
  chk_Group :: PermissionSet
  chk_Others :: PermissionSet
  chk_Octal :: string

text \<open>The zero value of the Go struct.\<close>

definition PermissionSet_zero :: PermissionSet where
  "PermissionSet_zero = \<lparr>ps_Read = False, ps_Write = False, ps_Execute = False\<rparr>"

text \<open>The three triads as \<^verbatim>\<open>ParseLinuxPermissions\<close> decodes them, by shifting.\<close>

definition parse_ownerPerms :: "int \<Rightarrow> int" where
  "parse_ownerPerms permissions = drop_bit 6 permissions AND 7"

definition parse_groupPerms :: "int \<Rightarrow> int" where
  "parse_groupPerms permissions = drop_bit 3 permissions AND 7"

definition parse_otherPerms :: "int \<Rightarrow> int" where
  "parse_otherPerms permissions = permissions AND 7"

definition perm_set_of :: "int \<Rightarrow> PermissionSet" where
  "perm_set_of t =
     \<lparr>ps_Read = (t AND 4 \<noteq> 0), ps_Write = (t AND 2 \<noteq> 0), ps_Execute = (t AND 1 \<noteq> 0)\<rparr>"

text \<open>The loop \<^verbatim>\<open>for _, ugid := range userGroupIDs\<close> with its \<^verbatim>\<open>break\<close>.\<close>

fun userInGroup :: "uuid list \<Rightarrow> uuid \<Rightarrow> bool" where
  "userInGroup [] groupID = False"
| "userInGroup (ugid # rest) groupID = (if ugid = groupID then True else userInGroup rest groupID)"

definition ParseLinuxPermissions ::
  "int \<Rightarrow> uuid \<Rightarrow> uuid option \<Rightarrow> uuid option \<Rightarrow> uuid list \<Rightarrow> FilePermissionCheck" where
  "ParseLinuxPermissions permissions userID fileOwnerID groupID userGroupIDs =
     (let owner = perm_set_of (parse_ownerPerms permissions);
          grp = perm_set_of (parse_groupPerms permissions);
          others = perm_set_of (parse_otherPerms permissions);
          userPerms =
            (if fileOwnerID = Some userID then owner
             else case groupID of
               Some g \<Rightarrow> if userInGroup userGroupIDs g then grp else others
             | None \<Rightarrow> others)
      in \<lparr>chk_CanRead = ps_Read userPerms,
          chk_CanWrite = ps_Write userPerms,
          chk_CanDownload = ps_Read userPerms,
          chk_CanDelete = ps_Write userPerms,
          chk_CanShare = ps_Read userPerms,
          chk_Owner = owner, chk_Group = grp, chk_Others = others,
          chk_Octal = sprintf_03o permissions\<rparr>)"

section \<open>Permissions of a listed file (package repository)\<close>

text \<open>
  The group loop of \<^verbatim>\<open>calculateUserFilePermissions\<close>: the variable
  \<^verbatim>\<open>effectivePermission\<close> starts at zero and is assigned the group digit at the
  first group that is the file's primary group.
\<close>

fun group_loop :: "uuid list \<Rightarrow> uuid \<Rightarrow> Permission \<Rightarrow> Permission \<Rightarrow> Permission" where
  "group_loop [] primaryGroup perm effectivePermission = effectivePermission"
| "group_loop (groupID # rest) primaryGroup perm effectivePermission =
     (if groupID = primaryGroup then GetGroupPermissions perm
      else group_loop rest primaryGroup perm effectivePermission)"

definition effective_permission ::
  "uuid \<Rightarrow> uuid list \<Rightarrow> uuid option \<Rightarrow> uuid option \<Rightarrow> Permission \<Rightarrow> Permission" where
  "effective_permission userID userGroupIDs fileOwnerID filePrimaryGroupID perm =
     (if fileOwnerID = Some userID then GetOwnerPermissions perm
      else
        let effectivePermission =
              (case filePrimaryGroupID of
                 Some pg \<Rightarrow> group_loop userGroupIDs pg perm 0
               | None \<Rightarrow> 0)
        in if effectivePermission = 0 then GetOtherPermissions perm else effectivePermission)"

definition calculateUserFilePermissions ::
  "uuid \<Rightarrow> uuid list \<Rightarrow> uuid option \<Rightarrow> uuid option \<Rightarrow> int \<Rightarrow> FilePermissionCheck" where
  "calculateUserFilePermissions userID userGroupIDs fileOwnerID filePrimaryGroupID filePermissions =
     (let effectivePermission =
            effective_permission userID userGroupIDs fileOwnerID filePrimaryGroupID filePermissions
      in \<lparr>chk_CanRead = CanRead effectivePermission,
          chk_CanWrite = CanWrite effectivePermission,
          chk_CanDownload = CanRead effectivePermission,
          chk_CanDelete = CanWrite effectivePermission,
          chk_CanShare = CanRead effectivePermission,
          chk_Owner = PermissionSet_zero, chk_Group = PermissionSet_zero,
          chk_Others = PermissionSet_zero,
          chk_Octal = []\<rparr>)"

text \<open>
  Groups (\<^verbatim>\<open>models.Group\<close>) and the system groups that the migration
  \<^verbatim>\<open>003_groups_and_permissions.sql\<close> creates for every organization.
\<close>

record Group =
  grp_ID :: uuid
  grp_OrganizationID :: uuid
  grp_Name :: string
  grp_Permissions :: int
  grp_IsSystemGroup :: bool

definition is_admin_group :: "uuid \<Rightarrow> Group \<Rightarrow> bool" where
  "is_admin_group orgID g =
     (grp_OrganizationID g = orgID \<and> grp_Name g = ''admin'' \<and> grp_IsSystemGroup g)"

text \<open>
  \<^verbatim>\<open>GetUserFilesWithPermissions\<close> turns the groups of the user into their ids
  before it resolves the permissions of each row.
\<close>

definition groupIDs_of :: "Group list \<Rightarrow> uuid list" where
  "groupIDs_of userGroups = map grp_ID userGroups"

section \<open>Strings (packages strings and path/filepath)\<close>

fun HasPrefix :: "string \<Rightarrow> string \<Rightarrow> bool" where
  "HasPrefix s [] = True"
| "HasPrefix [] (p # ps) = False"
| "HasPrefix (c # cs) (p # ps) = (c = p \<and> HasPrefix cs ps)"

fun Contains :: "string \<Rightarrow> string \<Rightarrow> bool" where
  "Contains [] substr = (substr = [])"
| "Contains (c # cs) substr = (HasPrefix (c # cs) substr \<or> Contains cs substr)"

text \<open>
  \<^verbatim>\<open>strings.TrimSpace\<close> removes leading and trailing white space as Unicode defines
  it. A Go string is a byte sequence that is read as UTF-8, so the white space runes are
  listed here by their encodings: the six ASCII ones, U+0085, U+00A0, U+1680, U+2000 to
  U+200A, U+2028, U+2029, U+202F, U+205F and U+3000.
\<close>

definition unicode_spaces :: "string list" where
  "unicode_spaces =
     [[CHR 0x09], [CHR 0x0A], [CHR 0x0B], [CHR 0x0C], [CHR 0x0D], [CHR 0x20],
      [CHR 0xC2, CHR 0x85], [CHR 0xC2, CHR 0xA0],
      [CHR 0xE1, CHR 0x9A, CHR 0x80],
      [CHR 0xE2, CHR 0x80, CHR 0x80], [CHR 0xE2, CHR 0x80, CHR 0x81],
      [CHR 0xE2, CHR 0x80, CHR 0x82], [CHR 0xE2, CHR 0x80, CHR 0x83],
      [CHR 0xE2, CHR 0x80, CHR 0x84], [CHR 0xE2, CHR 0x80, CHR 0x85],
      [CHR 0xE2, CHR 0x80, CHR 0x86], [CHR 0xE2, CHR 0x80, CHR 0x87],
      [CHR 0xE2, CHR 0x80, CHR 0x88], [CHR 0xE2, CHR 0x80, CHR 0x89],
      [CHR 0xE2, CHR 0x80, CHR 0x8A],
      [CHR 0xE2, CHR 0x80, CHR 0xA8], [CHR 0xE2, CHR 0x80, CHR 0xA9],
      [CHR 0xE2, CHR 0x80, CHR 0xAF],
      [CHR 0xE2, CHR 0x81, CHR 0x9F],
      [CHR 0xE3, CHR 0x80, CHR 0x80]]"

text \<open>The width in bytes of the white space rune a string starts with, 0 if it starts with none.\<close>

definition leading_space :: "string \<Rightarrow> nat" where
  "leading_space s =
     (case find (HasPrefix s) unicode_spaces of None \<Rightarrow> 0 | Some r \<Rightarrow> length r)"

text \<open>The same at the end of the string.\<close>

definition trailing_space :: "string \<Rightarrow> nat" where
  "trailing_space s =
     (case find (\<lambda>r. HasPrefix (rev s) (rev r)) unicode_spaces of
        None \<Rightarrow> 0 | Some r \<Rightarrow> length r)"

lemma HasPrefix_length: "HasPrefix s p \<Longrightarrow> length p \<le> length s"
  by (induction s p rule: HasPrefix.induct) simp_all

lemma leading_space_le: "leading_space s \<le> length s"
  by (auto simp: leading_space_def find_Some_iff dest: HasPrefix_length split: option.split)

lemma trailing_space_le: "trailing_space s \<le> length s"
  by (auto simp: trailing_space_def find_Some_iff dest: HasPrefix_length split: option.split)

function TrimLeftSpace :: "string \<Rightarrow> string" where
  "TrimLeftSpace s =
     (if leading_space s = 0 then s else TrimLeftSpace (drop (leading_space s) s))"
  by pat_completeness auto
termination
proof (relation "measure length")
  fix s :: string
  assume "leading_space s \<noteq> 0"
  moreover have "leading_space s \<le> length s" by (rule leading_space_le)
  ultimately show "(drop (leading_space s) s, s) \<in> measure length" by simp
qed simp

function TrimRightSpace :: "string \<Rightarrow> string" where
  "TrimRightSpace s =
     (if trailing_space s = 0 then s
      else TrimRightSpace (take (length s - trailing_space s) s))"
  by pat_completeness auto
termination
proof (relation "measure length")
  fix s :: string
  assume "trailing_space s \<noteq> 0"
  moreover have "trailing_space s \<le> length s" by (rule trailing_space_le)
  ultimately show "(take (length s - trailing_space s) s, s) \<in> measure length" by simp
qed simp

declare TrimLeftSpace.simps [simp del] TrimRightSpace.simps [simp del]

definition TrimSpace :: "string \<Rightarrow> string" where
  "TrimSpace s = TrimRightSpace (TrimLeftSpace s)"

text \<open>
  \<^verbatim>\<open>strings.ToLower\<close>, as far as a comparison with ASCII text can tell: ASCII capitals
  are mapped to small letters, and so are the only two other runes whose lower case is
  ASCII, U+0130 (to \<open>i\<close>) and U+212A (to \<open>k\<close>). Every other rune has a lower case outside
  ASCII; its bytes are left as they are.
\<close>

definition ascii_lower :: "char \<Rightarrow> char" where
  "ascii_lower c =
     (let n = (of_char c :: nat) in if 65 \<le> n \<and> n \<le> 90 then char_of (n + 32) else c)"

fun ToLower :: "string \<Rightarrow> string" where
  "ToLower [] = []"
| "ToLower [c] = [ascii_lower c]"
| "ToLower [c, d] =
     (if c = CHR 0xC4 \<and> d = CHR 0xB0 then ''i'' else ascii_lower c # ToLower [d])"
| "ToLower (c # d # e # cs) =
     (if c = CHR 0xC4 \<and> d = CHR 0xB0 then CHR ''i'' # ToLower (e # cs)
      else if c = CHR 0xE2 \<and> d = CHR 0x84 \<and> e = CHR 0xAA then CHR ''k'' # ToLower cs
      else ascii_lower c # ToLower (d # e # cs))"

text \<open>
  \<^verbatim>\<open>filepath.Ext\<close>: the suffix that starts at the last dot of the last path element.
  The scan runs from the end of the path and stops at a separator.
\<close>

fun ext_scan :: "string \<Rightarrow> string \<Rightarrow> string" where
  "ext_scan [] suffix = []"
| "ext_scan (c # front) suffix =
     (if c = CHR ''/'' then []
      else if c = CHR ''.'' then c # suffix
      else ext_scan front (c # suffix))"

definition Ext :: "string \<Rightarrow> string" where
  "Ext path = ext_scan (rev path) []"

text \<open>
  \<^verbatim>\<open>strings.Split\<close> for a separator that is not empty. The counter is the number of
  bytes of a separator still to be skipped.
\<close>

fun split_scan :: "string \<Rightarrow> nat \<Rightarrow> string \<Rightarrow> string \<Rightarrow> string list" where
  "split_scan sep k piece [] = [rev piece]"
| "split_scan sep (Suc k) piece (c # cs) = split_scan sep k piece cs"
| "split_scan sep 0 piece (c # cs) =
     (if sep \<noteq> [] \<and> HasPrefix (c # cs) sep
      then rev piece # split_scan sep (length sep - 1) [] cs
      else split_scan sep 0 (c # piece) cs)"

definition Split :: "string \<Rightarrow> string \<Rightarrow> string list" where
  "Split s sep = split_scan sep 0 [] s"

text \<open>The number of characters of a UTF-8 text: the bytes that are not continuation bytes.\<close>

definition utf8_chars :: "string \<Rightarrow> nat" where
  "utf8_chars s = length (filter (\<lambda>c. \<not> (128 \<le> (of_char c :: nat) \<and> (of_char c :: nat) < 192)) s)"

text \<open>A text that consists of white space runes only (the empty text included).\<close>

definition whitespace_only :: "string \<Rightarrow> bool" where
  "whitespace_only s = (\<exists>runes. set runes \<subseteq> set unicode_spaces \<and> s = concat runes)"

section \<open>File validation (package services)\<close>

text \<open>
  \<^verbatim>\<open>models.FileValidationResult\<close>. Warnings never change \<^verbatim>\<open>IsValid\<close> or the
  control flow of a caller; the list of warnings is left out of the model, and with it
  the statements of the validation functions that only append to it.
\<close>

record FileValidationResult =
  vr_IsValid :: bool
  vr_DetectedMimeType :: string
  vr_ContentHash :: string
  vr_FileSize :: int
  vr_Errors :: "string list"

definition MaxFileSize :: int where
  "MaxFileSize = 100 * 1024 * 1024 * 1024"

definition validateFileSize :: "int \<Rightarrow> FileValidationResult \<Rightarrow> FileValidationResult" where
  "validateFileSize fsize result =
     (let result1 =
            (if fsize = 0
             then result\<lparr>vr_IsValid := False, vr_Errors := vr_Errors result @ [''File is empty'']\<rparr>
             else result)
      in if fsize > MaxFileSize
         then result1\<lparr>vr_IsValid := False,
                vr_Errors := vr_Errors result1 @
                  [''File size ('' @ sprintf_d fsize @ '' bytes) exceeds maximum allowed size (''
                   @ sprintf_d MaxFileSize @ '' bytes)'']\<rparr>
         else result1)"

definition dangerousChars :: "string list" where
  "dangerousChars =
     [''../'', [CHR ''.'', CHR ''.'', CHR 0x5C], ''<'', ''>'', '':'', [CHR 0x22], ''|'', ''?'', ''*'']"

fun dangerousChars_loop ::
  "string list \<Rightarrow> string \<Rightarrow> FileValidationResult \<Rightarrow> FileValidationResult" where
  "dangerousChars_loop [] filename result = result"
| "dangerousChars_loop (char # rest) filename result =
     dangerousChars_loop rest filename
       (if Contains filename char
        then result\<lparr>vr_IsValid := False,
               vr_Errors := vr_Errors result @ [''Filename contains dangerous character: '' @ char]\<rparr>
        else result)"

definition validateFilename :: "string \<Rightarrow> FileValidationResult \<Rightarrow> FileValidationResult" where
  "validateFilename filename result =
     (if TrimSpace filename = []
      then result\<lparr>vr_IsValid := False, vr_Errors := vr_Errors result @ [''Filename cannot be empty'']\<rparr>
      else
        let result1 = dangerousChars_loop dangerousChars filename result;
            result2 =
              (if length filename > 255
               then result1\<lparr>vr_IsValid := False,
                      vr_Errors := vr_Errors result1 @ [''Filename is too long (max 255 characters)'']\<rparr>
               else result1)
        in if Contains filename [CHR 0x00]
           then result2\<lparr>vr_IsValid := False,
                  vr_Errors := vr_Errors result2 @ [''Filename contains null bytes'']\<rparr>
           else result2)"

definition dangerousExts :: "string list" where
  "dangerousExts =
     [''.exe'', ''.bat'', ''.cmd'', ''.com'', ''.pif'', ''.scr'', ''.vbs'', ''.vbe'',
      ''.js'', ''.jar'', ''.msi'', ''.dll'', ''.deb'', ''.rpm'', ''.dmg'', ''.pkg'',
      ''.sh'', ''.bash'', ''.zsh'', ''.fish'', ''.csh'', ''.ksh'', ''.ps1'', ''.psm1'',
      ''.py'', ''.rb'', ''.pl'', ''.php'', ''.asp'', ''.aspx'', ''.jsp'', ''.war'',
      ''.ipa'', ''.apk'', ''.app'', ''.gadget'', ''.workflow'']"

definition validateFileExtension :: "string \<Rightarrow> FileValidationResult \<Rightarrow> FileValidationResult" where
  "validateFileExtension filename result =
     (let ext = ToLower (Ext filename)
      in if ext \<in> set dangerousExts
         then result\<lparr>vr_IsValid := False,
                vr_Errors := vr_Errors result @
                  [''File type '' @ [CHR 0x27] @ ext @ [CHR 0x27] @ '' is not allowed for security reasons'']\<rparr>
         else result)"

text \<open>The checks of \<^verbatim>\<open>checkMaliciousContent\<close> for embedded executables.\<close>

definition checkMaliciousContent ::
  "string \<Rightarrow> bytes \<Rightarrow> FileValidationResult \<Rightarrow> FileValidationResult" where
  "checkMaliciousContent filename content result =
     (if length content > 2 then
        let result1 =
              (if Contains content ''MZ'' \<and> Contains content [CHR ''P'', CHR ''E'', CHR 0x00, CHR 0x00]
               then result\<lparr>vr_IsValid := False,
                      vr_Errors := vr_Errors result @ [''File contains embedded Windows executable'']\<rparr>
               else result);
            result2 =
              (if length content \<ge> 4 \<and> take 4 content = [CHR 0x7F, CHR ''E'', CHR ''L'', CHR ''F'']
               then result1\<lparr>vr_IsValid := False,
                      vr_Errors := vr_Errors result1 @ [''File contains embedded Linux executable'']\<rparr>
               else result1)
        in if length content \<ge> 4 \<and>
                (take 4 content = [CHR 0xFE, CHR 0xED, CHR 0xFA, CHR 0xCE] \<or>
                 take 4 content = [CHR 0xFE, CHR 0xED, CHR 0xFA, CHR 0xCF])
           then result2\<lparr>vr_IsValid := False,
                  vr_Errors := vr_Errors result2 @ [''File contains embedded macOS executable'']\<rparr>
           else result2
      else result)"

text \<open>
  An \<^verbatim>\<open>io.Reader\<close>: the bytes it still has to deliver, and whether reading it fails.
  \<^verbatim>\<open>io.Copy\<close> reads a reader to its end and leaves it there.
\<close>

record Reader =
  rd_data :: bytes
  rd_fail :: bool

definition io_Copy :: "Reader \<Rightarrow> (string + bytes) \<times> Reader" where
  "io_Copy content =
     (if rd_fail content then (Inl ''read error'', content\<lparr>rd_data := []\<rparr>)
      else (Inr (rd_data content), content\<lparr>rd_data := []\<rparr>))"

text \<open>
  What the validation service takes from outside the repository: SHA-256 with its hex
  encoding (\<^verbatim>\<open>crypto/sha256\<close>, \<^verbatim>\<open>encoding/hex\<close>), and the detection of the MIME
  type, which rests on the MIME table of the host (\<^verbatim>\<open>mime.TypeByExtension\<close>) and feeds
  only the stored type and the warnings.
\<close>

record Library =
  lib_sha256_hex :: "bytes \<Rightarrow> string"
  lib_detectMimeType :: "string \<Rightarrow> bytes \<Rightarrow> string"

definition new_result :: FileValidationResult where
  "new_result = \<lparr>vr_IsValid = True, vr_DetectedMimeType = [], vr_ContentHash = [],
                  vr_FileSize = 0, vr_Errors = []\<rparr>"

text \<open>
  \<^verbatim>\<open>ValidateFile\<close> returns the result together with an error that is always
  \<^verbatim>\<open>nil\<close>; the model returns the result and the reader as the call leaves it.
\<close>

definition ValidateFile ::
  "Library \<Rightarrow> string \<Rightarrow> string \<Rightarrow> Reader \<Rightarrow> FileValidationResult \<times> Reader" where
  "ValidateFile lib filename declaredMimeType content =
     (case io_Copy content of
        (Inl err, content') \<Rightarrow>
          (new_result\<lparr>vr_IsValid := False,
             vr_Errors := [''Failed to read file content: '' @ err]\<rparr>, content')
      | (Inr contentBytes, content') \<Rightarrow>
          let fsize = int (length contentBytes);
              result1 = new_result\<lparr>vr_FileSize := fsize,
                          vr_ContentHash := lib_sha256_hex lib contentBytes\<rparr>;
              result2 = validateFileSize fsize result1;
              result3 = validateFilename filename result2;
              result4 = result3\<lparr>vr_DetectedMimeType := lib_detectMimeType lib filename contentBytes\<rparr>;
              result5 = checkMaliciousContent filename contentBytes result4;
              result6 = validateFileExtension filename result5
          in (result6, content'))"

section \<open>Storage paths\<close>

text \<open>
  A Go slice expression \<^verbatim>\<open>s[lo:hi]\<close> panics when the bounds are out of range;
  \<open>None\<close> is the panic.
\<close>

definition go_slice :: "string \<Rightarrow> nat \<Rightarrow> nat \<Rightarrow> string option" where
  "go_slice s lo hi = (if lo \<le> hi \<and> hi \<le> length s then Some (take (hi - lo) (drop lo s)) else None)"

text \<open>\<^verbatim>\<open>FileUploadService.generateStoragePath\<close> (package services).\<close>

definition generateStoragePath :: "string \<Rightarrow> string option" where
  "generateStoragePath contentHash =
     (case go_slice contentHash 0 2 of
        None \<Rightarrow> None
      | Some a \<Rightarrow>
          (case go_slice contentHash 2 4 of
             None \<Rightarrow> None
           | Some b \<Rightarrow> Some (''files/'' @ a @ ''/'' @ b @ ''/'' @ contentHash)))"

text \<open>The helper \<^verbatim>\<open>generateStoragePath\<close> of package repository, used by \<^verbatim>\<open>CheckDeduplication\<close>.\<close>

definition repository_generateStoragePath :: "string \<Rightarrow> string option" where
  "repository_generateStoragePath contentHash =
     (case go_slice contentHash 0 2 of
        None \<Rightarrow> None
      | Some a \<Rightarrow>
          (case go_slice contentHash 2 4 of
             None \<Rightarrow> None
           | Some b \<Rightarrow> Some (''files/'' @ a @ ''/'' @ b @ ''/'' @ contentHash)))"

text \<open>
  The key as the specification writes it, \<^verbatim>\<open>files/<fp[0:2]>/<fp[2:4]>/<fp>\<close>, and what
  it asks of a fingerprint: 64 lower-case hexadecimal digits.
\<close>

definition spec_storage_key :: "string \<Rightarrow> string" where
  "spec_storage_key fp = ''files/'' @ [fp ! 0, fp ! 1] @ ''/'' @ [fp ! 2, fp ! 3] @ ''/'' @ fp"

definition is_fingerprint :: "string \<Rightarrow> bool" where
  "is_fingerprint fp = (length fp = 64 \<and> list_all (\<lambda>c. c \<in> set ''0123456789abcdef'') fp)"

section \<open>Metadata store and object store\<close>

text \<open>
  The rows of the tables \<^verbatim>\<open>files\<close> and \<^verbatim>\<open>user_files\<close> (\<^verbatim>\<open>models.File\<close>,
  \<^verbatim>\<open>models.UserFile\<close>), without their time stamps and preloaded relations.
\<close>

record File =
  f_ID :: uuid
  f_ContentHash :: string
  f_Filename :: string
  f_OriginalMimeType :: string
  f_DetectedMimeType :: string
  f_FileSize :: int
  f_StoragePath :: string
  f_OwnerID :: "uuid option"
  f_PrimaryGroupID :: "uuid option"
  f_FilePermissions :: int

record UserFile =
  uf_ID :: uuid
  uf_UserID :: uuid
  uf_FileID :: uuid
  uf_UserFilename :: string
  uf_FolderPath :: string
  uf_IsDeleted :: bool
  uf_DownloadCount :: int
  uf_AccessPermissions :: int

text \<open>
  The state that the services share: the two tables, the next identifier that
  \<^verbatim>\<open>gen_random_uuid()\<close> hands out, and the objects of the storage backend by path.
\<close>

record State =
  st_files :: "File list"
  st_user_files :: "UserFile list"
  st_next_id :: uuid
  st_objects :: "string \<rightharpoonup> bytes"

text \<open>What can go wrong outside the program during one call.\<close>

record Env =
  env_query_fails :: bool
  env_write_fails :: bool
  env_storage_fails :: bool

datatype db_error = ErrRecordNotFound | ErrDatabase | ErrDuplicateKey



text \<open>
  The defaults that gorm applies on insert to the fields of \<^verbatim>\<open>models.UserFile\<close> that
  are zero: an empty \<^verbatim>\<open>FolderPath\<close> is stored as \<^verbatim>\<open>/\<close> (tag \<^verbatim>\<open>default:'/'\<close>)
  and \<^verbatim>\<open>AccessPermissions\<close> 0 as 644. The defaults of \<^verbatim>\<open>IsDeleted\<close> and
  \<^verbatim>\<open>DownloadCount\<close> are their zero values.
\<close>

definition stored_folder :: "string \<Rightarrow> string" where
  "stored_folder folderPath = (if folderPath = [] then ''/'' else folderPath)"

definition UserFile_defaults :: "UserFile \<Rightarrow> UserFile" where
  "UserFile_defaults userFile =
     userFile\<lparr>uf_FolderPath := stored_folder (uf_FolderPath userFile),
              uf_AccessPermissions :=
                (if uf_AccessPermissions userFile = 0 then 644 else uf_AccessPermissions userFile)\<rparr>"

text \<open>
  \<^verbatim>\<open>FileRepository.CreateUserFile\<close>: a plain insert of the row with its defaults and
  the identifier that the database assigns; it fails on the constraint
  \<^verbatim>\<open>UNIQUE(user_id, user_filename, folder_path)\<close> of the table.
\<close>

definition CreateUserFile :: "Env \<Rightarrow> State \<Rightarrow> UserFile \<Rightarrow> db_error + (UserFile \<times> State)" where
  "CreateUserFile env st userFile =
     (if env_write_fails env then Inl ErrDatabase
      else
        let userFile' = (UserFile_defaults userFile)\<lparr>uf_ID := st_next_id st\<rparr>
        in if \<exists>u \<in> set (st_user_files st).
                uf_UserID u = uf_UserID userFile' \<and> uf_UserFilename u = uf_UserFilename userFile'
                \<and> uf_FolderPath u = uf_FolderPath userFile'
           then Inl ErrDuplicateKey
           else Inr (userFile', st\<lparr>st_user_files := st_user_files st @ [userFile'],
                                  st_next_id := st_next_id st + 1\<rparr>))"


text \<open>\<^verbatim>\<open>FileRepository.GetUserFile\<close>: the live reference with this id of this user.\<close>

definition GetUserFile :: "Env \<Rightarrow> State \<Rightarrow> uuid \<Rightarrow> uuid \<Rightarrow> db_error + UserFile" where
  "GetUserFile env st userID userFileID =
     (if env_query_fails env then Inl ErrDatabase
      else case find (\<lambda>u. uf_ID u = userFileID \<and> uf_UserID u = userID \<and> \<not> uf_IsDeleted u)
                  (st_user_files st) of
             None \<Rightarrow> Inl ErrRecordNotFound
           | Some userFile \<Rightarrow> Inr userFile)"

text \<open>\<^verbatim>\<open>FileRepository.SoftDeleteUserFile\<close>: an update of every row with the id.\<close>

definition SoftDeleteUserFile :: "Env \<Rightarrow> State \<Rightarrow> uuid \<Rightarrow> db_error + State" where
  "SoftDeleteUserFile env st userFileID =
     (if env_write_fails env then Inl ErrDatabase
      else Inr (st\<lparr>st_user_files :=
                  map (\<lambda>u. if uf_ID u = userFileID then u\<lparr>uf_IsDeleted := True\<rparr> else u)
                      (st_user_files st)\<rparr>))"


section \<open>Upload service (package services)\<close>












section \<open>Delete handler (package handlers)\<close>

text \<open>
  What \<^verbatim>\<open>FileHandler.DeleteFile\<close> reads from the request: the user id that the
  authentication middleware has put into the context, if any, and the path parameter
  \<^verbatim>\<open>fileId\<close> as \<^verbatim>\<open>uuid.Parse\<close> reads it, \<open>None\<close> when it is not a UUID. The
  response is the HTTP status with the message of the JSON body.
\<close>

record DeleteRequest =
  del_userID :: "uuid option"
  del_fileId :: "uuid option"

type_synonym response = "nat \<times> string"

definition DeleteFile :: "Env \<Rightarrow> State \<Rightarrow> DeleteRequest \<Rightarrow> response \<times> State" where
  "DeleteFile env st c =
     (case del_userID c of
        None \<Rightarrow> ((401, ''User not authenticated''), st)
      | Some userID \<Rightarrow>
          (case del_fileId c of
             None \<Rightarrow> ((400, ''Invalid file ID''), st)
           | Some fileID \<Rightarrow>
               (case GetUserFile env st userID fileID of
                  Inl err \<Rightarrow> ((404, ''File not found''), st)
                | Inr userFile \<Rightarrow>
                    if uf_UserID userFile \<noteq> userID then ((403, ''Access denied''), st)
                    else
                      (case SoftDeleteUserFile env st (uf_ID userFile) of
                         Inl err \<Rightarrow> ((500, ''Failed to delete file''), st)
                       | Inr st' \<Rightarrow> ((200, ''File deleted successfully''), st')))))"

text \<open>The same request again and again, each call with what happens outside during it.\<close>

fun DeleteFile_again :: "Env list \<Rightarrow> State \<Rightarrow> DeleteRequest \<Rightarrow> response list \<times> State" where
  "DeleteFile_again [] st c = ([], st)"
| "DeleteFile_again (env # envs) st c =
     (case DeleteFile env st c of
        (r, st') \<Rightarrow> (case DeleteFile_again envs st' c of (rs, st'') \<Rightarrow> (r # rs, st'')))"

section \<open>Virus scan (package services)\<close>

record VirusScanResult =
  vs_Clean :: bool
  vs_Engine :: string
  vs_Status :: string
  vs_ThreatName :: string
  vs_Error :: string

text \<open>
  The scanner daemon as one scan meets it: the error of \<^verbatim>\<open>net.DialTimeout\<close>, if the
  connection cannot be opened, the error of the write of the command, if it fails, and
  what the one \<^verbatim>\<open>Read\<close> of the response returns, its error or the bytes of the
  daemon. An error is given by its text. The writes of the chunks are not checked by the
  source.
\<close>

record ClamAV =
  av_dial_error :: "string option"
  av_command_error :: "string option"
  av_response :: "string + string"

datatype read_error = EOF | ReadFailed

text \<open>The text of an error of a reader: \<^verbatim>\<open>io.EOF\<close>, and the error of a reader that fails.\<close>

fun read_error_text :: "read_error \<Rightarrow> string" where
  "read_error_text EOF = ''EOF''"
| "read_error_text ReadFailed = ''read error''"

text \<open>
  \<^verbatim>\<open>content.Read(buffer)\<close> on a buffer of \<open>n\<close> bytes: the next bytes, at most
  \<open>n\<close>, and \<^verbatim>\<open>io.EOF\<close> once none are left.
\<close>

definition Reader_Read :: "nat \<Rightarrow> Reader \<Rightarrow> (bytes \<times> read_error option) \<times> Reader" where
  "Reader_Read n content =
     (if rd_fail content then (([], Some ReadFailed), content)
      else if rd_data content = [] then (([], Some EOF), content)
      else ((take n (rd_data content), None), content\<lparr>rd_data := drop n (rd_data content)\<rparr>))"

lemma Reader_Read_shorter:
  "Reader_Read n content = ((chunk, None), content') \<Longrightarrow> 0 < n \<Longrightarrow>
     length (rd_data content') < length (rd_data content)"
  by (auto simp: Reader_Read_def split: if_splits)

text \<open>
  The loop of \<^verbatim>\<open>scanForViruses\<close> that streams the content: every chunk is written
  as \<^verbatim>\<open>fmt.Sprintf("%08x", n)\<close> followed by its bytes. The second argument is what
  has been written to the connection so far; the result is the read error that ended
  the loop, if any, and what has been written.
\<close>

function stream_content :: "Reader \<Rightarrow> bytes \<Rightarrow> read_error option \<times> bytes" where
  "stream_content content sent =
     (case Reader_Read 8192 content of
        ((chunk, err), content') \<Rightarrow>
          (let sent' = (if length chunk > 0 then sent @ sprintf_08x (length chunk) @ chunk else sent)
           in case err of
                Some EOF \<Rightarrow> (None, sent')
              | Some ReadFailed \<Rightarrow> (Some ReadFailed, sent')
              | None \<Rightarrow> stream_content content' sent'))"
  by pat_completeness auto
termination
  by (relation "measure (\<lambda>(content, sent). length (rd_data content))")
     (auto dest: Reader_Read_shorter [OF sym])

declare stream_content.simps [simp del]

definition new_scanResult :: VirusScanResult where
  "new_scanResult = \<lparr>vs_Clean = True, vs_Engine = ''ClamAV'', vs_Status = [],
                      vs_ThreatName = [], vs_Error = []\<rparr>"

text \<open>The answer of the daemon as \<^verbatim>\<open>scanForViruses\<close> parses it.\<close>

definition parse_response :: "string \<Rightarrow> VirusScanResult" where
  "parse_response responseStr =
     (if Contains responseStr ''FOUND'' then
        let infected = new_scanResult\<lparr>vs_Clean := False, vs_Status := ''infected''\<rparr>;
            parts = Split responseStr '': ''
        in if length parts \<ge> 2 then
             let threatParts = Split (parts ! 1) '' ''
             in if length threatParts > 0 then infected\<lparr>vs_ThreatName := threatParts ! 0\<rparr>
                else infected
           else infected
      else if Contains responseStr ''OK'' then new_scanResult\<lparr>vs_Status := ''clean''\<rparr>
      else new_scanResult\<lparr>vs_Status := ''error'',
             vs_Error := ''Unexpected ClamAV response: '' @ responseStr\<rparr>)"

text \<open>
  \<^verbatim>\<open>scanForViruses\<close>: the scan result, the error it returns, if any, by its text, and
  the bytes it has written to the connection. The error of the dial is formatted into
  the result and wrapped in the error returned; the other errors are returned as they
  are.
\<close>

definition scanForViruses ::
  "bool \<Rightarrow> ClamAV \<Rightarrow> Reader \<Rightarrow> (VirusScanResult \<times> string option) \<times> bytes" where
  "scanForViruses virusScanningEnabled av content =
     (if \<not> virusScanningEnabled then ((new_scanResult\<lparr>vs_Status := ''disabled''\<rparr>, None), [])
      else
        (case av_dial_error av of
           Some err \<Rightarrow>
             ((new_scanResult\<lparr>vs_Status := ''error'',
                 vs_Error := ''Failed to connect to ClamAV: '' @ err\<rparr>,
               Some (''ClamAV connection failed: '' @ err)), [])
         | None \<Rightarrow>
             (case av_command_error av of
                Some err \<Rightarrow>
                  ((new_scanResult\<lparr>vs_Status := ''error'', vs_Error := ''Failed to send scan command''\<rparr>,
                    Some err), [])
              | None \<Rightarrow>
                  (case stream_content content (''nINSTREAM'' @ [CHR 0x0A]) of
                     (Some err, sent) \<Rightarrow>
                       ((new_scanResult\<lparr>vs_Status := ''error'',
                           vs_Error := ''Failed to stream file content''\<rparr>,
                         Some (read_error_text err)), sent)
                   | (None, sent) \<Rightarrow>
                       (let sent' = sent @ ''00000000''
                        in case av_response av of
                             Inl err \<Rightarrow>
                               ((new_scanResult\<lparr>vs_Status := ''error'',
                                   vs_Error := ''Failed to read scan result''\<rparr>,
                                 Some err), sent')
                           | Inr response \<Rightarrow>
                               ((parse_response (take 1024 response), None), sent'))))))"

text \<open>
  The stream as the specification words it: the command, every chunk as a 4-byte
  big-endian length followed by its bytes, and 4 zero bytes at the end.
\<close>

definition be32 :: "nat \<Rightarrow> bytes" where
  "be32 n = [char_of (n div 16777216), char_of (n div 65536), char_of (n div 256), char_of n]"

definition spec_instream_wire :: "bytes list \<Rightarrow> bytes" where
  "spec_instream_wire chunks =
     ''nINSTREAM'' @ [CHR 0x0A] @ concat (map (\<lambda>chunk. be32 (length chunk) @ chunk) chunks)
     @ [CHR 0x00, CHR 0x00, CHR 0x00, CHR 0x00]"

section \<open>Rate limiting (package middleware)\<close>

text \<open>
  The token bucket of \<^verbatim>\<open>golang.org/x/time/rate\<close>, a library outside the repository,
  after its documentation: a bucket that holds at most \<^verbatim>\<open>burst\<close> tokens, is full
  when it is made and is refilled at \<^verbatim>\<open>limit\<close> tokens per second; \<^verbatim>\<open>Allow\<close> takes
  one token if there is one. Time is counted in nanoseconds, tokens are rational numbers.
\<close>

record Limiter =
  lim_limit :: rat
  lim_burst :: int
  lim_tokens :: rat
  lim_last :: int

definition NewLimiter :: "rat \<Rightarrow> int \<Rightarrow> Limiter" where
  "NewLimiter r b = \<lparr>lim_limit = r, lim_burst = b, lim_tokens = of_int b, lim_last = 0\<rparr>"

text \<open>\<^verbatim>\<open>Limiter.Tokens\<close>: the tokens in the bucket at a time.\<close>

definition Tokens :: "Limiter \<Rightarrow> int \<Rightarrow> rat" where
  "Tokens limiter now =
     (let elapsed = now - min (lim_last limiter) now;
          delta = (if lim_limit limiter \<le> 0 then 0 else of_int elapsed * lim_limit limiter / 1000000000)
      in min (of_int (lim_burst limiter)) (lim_tokens limiter + delta))"

definition Allow :: "Limiter \<Rightarrow> int \<Rightarrow> bool \<times> Limiter" where
  "Allow limiter now =
     (let tokens = Tokens limiter now - 1
      in if 1 \<le> lim_burst limiter \<and> 0 \<le> tokens
         then (True, limiter\<lparr>lim_tokens := tokens, lim_last := now\<rparr>)
         else (False, limiter))"

text \<open>The conversion \<^verbatim>\<open>int(x)\<close> of a floating point number truncates towards zero.\<close>

definition go_int :: "rat \<Rightarrow> int" where
  "go_int x = (if 0 \<le> x then \<lfloor>x\<rfloor> else \<lceil>x\<rceil>)"

record TokenBucket =
  tb_limiter :: Limiter
  tb_lastAccess :: int

record RateLimiter =
  rl_userBuckets :: "uuid \<rightharpoonup> TokenBucket"
  rl_orgBuckets :: "uuid \<rightharpoonup> TokenBucket"
  rl_userRPS :: rat
  rl_userBurst :: int
  rl_orgRPS :: rat
  rl_orgBurst :: int
  rl_cleanupInterval :: int
  rl_maxIdleTime :: int

record Config =
  cfg_RateLimitRPS :: int
  cfg_RateLimitBurst :: int

definition minute :: int where
  "minute = 60 * 1000000000"

definition NewRateLimiter :: "Config \<Rightarrow> RateLimiter" where
  "NewRateLimiter cfg =
     \<lparr>rl_userBuckets = Map.empty, rl_orgBuckets = Map.empty,
       rl_userRPS = float64_of_int (cfg_RateLimitRPS cfg),
       rl_userBurst = cfg_RateLimitBurst cfg,
       rl_orgRPS = float64_of_int (wrap64 (cfg_RateLimitRPS cfg * 10)),
       rl_orgBurst = wrap64 (cfg_RateLimitBurst cfg * 10),
       rl_cleanupInterval = 5 * minute,
       rl_maxIdleTime = 30 * minute\<rparr>"

text \<open>
  \<^verbatim>\<open>GetUserLimiter\<close> and \<^verbatim>\<open>GetOrgLimiter\<close> return a pointer to the limiter of the
  bucket; the model returns the limiter, and \<open>put_user_limiter\<close> stores it back after a
  call has changed it.
\<close>

definition GetUserLimiter :: "RateLimiter \<Rightarrow> int \<Rightarrow> uuid \<Rightarrow> Limiter \<times> RateLimiter" where
  "GetUserLimiter rl now userID =
     (case rl_userBuckets rl userID of
        None \<Rightarrow>
          (let bucket = \<lparr>tb_limiter = NewLimiter (rl_userRPS rl) (rl_userBurst rl), tb_lastAccess = now\<rparr>
           in (tb_limiter bucket, rl\<lparr>rl_userBuckets := (rl_userBuckets rl)(userID \<mapsto> bucket)\<rparr>))
      | Some bucket \<Rightarrow>
          (tb_limiter bucket,
           rl\<lparr>rl_userBuckets := (rl_userBuckets rl)(userID \<mapsto> bucket\<lparr>tb_lastAccess := now\<rparr>)\<rparr>))"

definition GetOrgLimiter :: "RateLimiter \<Rightarrow> int \<Rightarrow> uuid \<Rightarrow> Limiter \<times> RateLimiter" where
  "GetOrgLimiter rl now orgID =
     (case rl_orgBuckets rl orgID of
        None \<Rightarrow>
          (let bucket = \<lparr>tb_limiter = NewLimiter (rl_orgRPS rl) (rl_orgBurst rl), tb_lastAccess = now\<rparr>
           in (tb_limiter bucket, rl\<lparr>rl_orgBuckets := (rl_orgBuckets rl)(orgID \<mapsto> bucket)\<rparr>))
      | Some bucket \<Rightarrow>
          (tb_limiter bucket,
           rl\<lparr>rl_orgBuckets := (rl_orgBuckets rl)(orgID \<mapsto> bucket\<lparr>tb_lastAccess := now\<rparr>)\<rparr>))"

definition put_user_limiter :: "RateLimiter \<Rightarrow> uuid \<Rightarrow> Limiter \<Rightarrow> RateLimiter" where
  "put_user_limiter rl userID limiter =
     (case rl_userBuckets rl userID of
        None \<Rightarrow> rl
      | Some bucket \<Rightarrow> rl\<lparr>rl_userBuckets := (rl_userBuckets rl)(userID \<mapsto> bucket\<lparr>tb_limiter := limiter\<rparr>)\<rparr>)"

text \<open>
  What \<^verbatim>\<open>c.Get("userID")\<close> finds in the context of a request, and what the
  middleware does with the request: it passes it on, with the headers it has set, or
  aborts it with a status.
\<close>

datatype ctx_value = UUIDValue uuid | OtherValue

datatype admission = Next "(string \<times> string) list" | Abort nat string

definition RateLimitMiddleware ::
  "RateLimiter \<Rightarrow> int \<Rightarrow> ctx_value option \<Rightarrow> admission \<times> RateLimiter" where
  "RateLimitMiddleware rl now userIDInterface =
     (case userIDInterface of
        None \<Rightarrow> (Next [], rl)
      | Some OtherValue \<Rightarrow> (Abort 500 ''Invalid user ID format'', rl)
      | Some (UUIDValue userID) \<Rightarrow>
          (case GetUserLimiter rl now userID of
             (userLimiter, rl1) \<Rightarrow>
               (case Allow userLimiter now of
                  (allowed, userLimiter') \<Rightarrow>
                    (let rl2 = put_user_limiter rl1 userID userLimiter'
                     in if \<not> allowed then (Abort 429 ''Rate limit exceeded'', rl2)
                        else
                          (let remainingTokens =
                                 (if Tokens userLimiter' now < of_int (lim_burst userLimiter')
                                  then go_int (Tokens userLimiter' now)
                                  else lim_burst userLimiter')
                           in (Next [(''X-RateLimit-Limit'', sprintf_d (go_int (lim_limit userLimiter'))),
                                     (''X-RateLimit-Remaining'', sprintf_d remainingTokens)],
                               rl2))))))"

text \<open>\<^verbatim>\<open>cleanup\<close> drops the buckets that have been idle for longer than the maximum.\<close>

definition drop_idle :: "int \<Rightarrow> int \<Rightarrow> (uuid \<rightharpoonup> TokenBucket) \<Rightarrow> (uuid \<rightharpoonup> TokenBucket)" where
  "drop_idle now maxIdleTime buckets =
     (\<lambda>k. case buckets k of
            None \<Rightarrow> None
          | Some bucket \<Rightarrow> if now - tb_lastAccess bucket > maxIdleTime then None else Some bucket)"

definition cleanup :: "RateLimiter \<Rightarrow> int \<Rightarrow> RateLimiter" where
  "cleanup rl now =
     rl\<lparr>rl_userBuckets := drop_idle now (rl_maxIdleTime rl) (rl_userBuckets rl),
        rl_orgBuckets := drop_idle now (rl_maxIdleTime rl) (rl_orgBuckets rl)\<rparr>"

text \<open>Requests of a list of authenticated users, one each, all at the same time.\<close>

fun serve :: "RateLimiter \<Rightarrow> int \<Rightarrow> uuid list \<Rightarrow> admission list \<times> RateLimiter" where
  "serve rl now [] = ([], rl)"
| "serve rl now (userID # rest) =
     (case RateLimitMiddleware rl now (Some (UUIDValue userID)) of
        (a, rl') \<Rightarrow> (case serve rl' now rest of (as, rl'') \<Rightarrow> (a # as, rl'')))"

fun admitted :: "admission \<Rightarrow> bool" where
  "admitted (Next headers) = True"
| "admitted (Abort status message) = False"

text \<open>As many calls of \<^verbatim>\<open>Allow\<close> on one limiter, all at the same time.\<close>

fun Allow_times :: "nat \<Rightarrow> Limiter \<Rightarrow> int \<Rightarrow> bool list" where
  "Allow_times 0 limiter now = []"
| "Allow_times (Suc n) limiter now =
     (case Allow limiter now of (ok, limiter') \<Rightarrow> ok # Allow_times n limiter' now)"

section \<open>Sample data\<close>

text \<open>The concrete values at which the properties below are evaluated.\<close>

text \<open>The admin system group of a sample organization.\<close>

definition acme_admin :: Group where
  "acme_admin = \<lparr>grp_ID = 9, grp_OrganizationID = 1, grp_Name = ''admin'',
                  grp_Permissions = 777, grp_IsSystemGroup = True\<rparr>"

text \<open>
  A sample library. Its digest is the SHA-256 of the one content
  the examples upload, \<^verbatim>\<open>helloworld\<close>, and a fixed string of 64 digits elsewhere.
\<close>

definition sample_lib :: Library where
  "sample_lib =
     \<lparr>lib_sha256_hex = (\<lambda>content.
         if content = ''helloworld''
         then ''936a185caaa266bb9cbe981e9e05cb78cd732b0b3280eb944412bb6f8f8f07af''
         else replicate 64 (CHR ''0'')),
       lib_detectMimeType = (\<lambda>filename content. ''text/plain'')\<rparr>"

definition helloworld :: Reader where
  "helloworld = \<lparr>rd_data = ''helloworld'', rd_fail = False\<rparr>"

text \<open>A call without faults, an empty store, an upload of the sample content.\<close>

definition no_faults :: Env where
  "no_faults = \<lparr>env_query_fails = False, env_write_fails = False, env_storage_fails = False\<rparr>"

definition empty_state :: State where
  "empty_state = \<lparr>st_files = [], st_user_files = [], st_next_id = 100, st_objects = Map.empty\<rparr>"


definition sample_reference :: UserFile where
  "sample_reference =
     \<lparr>uf_ID = 101, uf_UserID = 1, uf_FileID = 100, uf_UserFilename = ''x.bin'',
       uf_FolderPath = ''/a'', uf_IsDeleted = False, uf_DownloadCount = 0,
       uf_AccessPermissions = 644\<rparr>"

definition one_reference :: State where
  "one_reference = empty_state\<lparr>st_user_files := [sample_reference], st_next_id := 102\<rparr>"

definition delete_101 :: DeleteRequest where
  "delete_101 = \<lparr>del_userID = Some 1, del_fileId = Some 101\<rparr>"

text \<open>A scanner daemon that finds nothing, and one that finds a test signature.\<close>

definition clamd_clean :: ClamAV where
  "clamd_clean = \<lparr>av_dial_error = None, av_command_error = None,
                   av_response = Inr (''stream: OK'' @ [CHR 0x0A])\<rparr>"

definition clamd_found :: ClamAV where
  "clamd_found = \<lparr>av_dial_error = None, av_command_error = None,
                   av_response = Inr (''stream: Eicar-Test-Signature FOUND'' @ [CHR 0x0A])\<rparr>"

text \<open>Two configurations of the rate limiter; the second is the default.\<close>

definition small_config :: Config where
  "small_config = \<lparr>cfg_RateLimitRPS = 1, cfg_RateLimitBurst = 1\<rparr>"

definition default_config :: Config where
  "default_config = \<lparr>cfg_RateLimitRPS = 2, cfg_RateLimitBurst = 5\<rparr>"

section \<open>Verified properties\<close>

lemma go_div_nonneg: "0 \<le> a \<Longrightarrow> 0 < b \<Longrightarrow> go_div a b = a div b"
  by (cases "a = 0") (simp_all add: go_div_def)

lemma go_mod_nonneg: "0 \<le> a \<Longrightarrow> 0 < b \<Longrightarrow> go_mod a b = a mod b"
  by (cases "a = 0") (simp_all add: go_mod_def)

subsection \<open>Permission resolution\<close>

lemma group_loop_skip:
  "g \<noteq> pg \<Longrightarrow> group_loop (xs @ g # ys) pg perm e = group_loop (xs @ ys) pg perm e"
  by (induction xs) simp_all

lemma userInGroup_skip:
  "g \<noteq> pg \<Longrightarrow> userInGroup (xs @ g # ys) pg = userInGroup (xs @ ys) pg"
  by (induction xs) simp_all

lemma userInGroup_iff: "userInGroup gs g \<longleftrightarrow> g \<in> set gs"
  by (induction gs) auto

lemma group_loop_cases:
  "group_loop gs pg perm e = (if pg \<in> set gs then GetGroupPermissions perm else e)"
  by (induction gs) auto

lemma triads_777:
  "GetOwnerPermissions 777 = 7" "GetGroupPermissions 777 = 7" "GetOtherPermissions 777 = 7"
  by (simp_all add: GetOwnerPermissions_def GetGroupPermissions_def GetOtherPermissions_def
        go_div_def go_mod_def)

lemma effective_777: "effective_permission u gs ow pg 777 = 7"
  by (simp add: effective_permission_def group_loop_cases triads_777 Let_def split: option.split)

lemma can_7: "CanRead 7" "CanWrite 7" "CanExecute 7"
  by (simp_all add: CanRead_def CanWrite_def CanExecute_def HasPermission_def
        PermissionRead_def PermissionWrite_def PermissionExecute_def)

text \<open>
  What the two resolvers compute. The listing path uses the group digit only when it is not
  zero; the metadata path follows the precedence of owner, primary group and others on
  the triads it decodes.
\<close>

lemma effective_permission_cases:
  "effective_permission userID userGroupIDs fileOwnerID filePrimaryGroupID perm =
     (if fileOwnerID = Some userID then GetOwnerPermissions perm
      else if (\<exists>g. filePrimaryGroupID = Some g \<and> g \<in> set userGroupIDs)
              \<and> GetGroupPermissions perm \<noteq> 0
      then GetGroupPermissions perm
      else GetOtherPermissions perm)"
  by (auto simp: effective_permission_def group_loop_cases Let_def split: option.splits)

lemma ParseLinuxPermissions_precedence:
  "chk_CanRead (ParseLinuxPermissions permissions userID fileOwnerID groupID userGroupIDs) =
     ps_Read (perm_set_of
       (if fileOwnerID = Some userID then parse_ownerPerms permissions
        else if \<exists>g. groupID = Some g \<and> g \<in> set userGroupIDs then parse_groupPerms permissions
        else parse_otherPerms permissions))
   \<and> chk_CanWrite (ParseLinuxPermissions permissions userID fileOwnerID groupID userGroupIDs) =
     ps_Write (perm_set_of
       (if fileOwnerID = Some userID then parse_ownerPerms permissions
        else if \<exists>g. groupID = Some g \<and> g \<in> set userGroupIDs then parse_groupPerms permissions
        else parse_otherPerms permissions))"
  by (auto simp: ParseLinuxPermissions_def userInGroup_iff Let_def split: option.splits)

text \<open>
  Each decoder is right for an encoding of its own: the digits of
  \<^verbatim>\<open>Permission\<close> for a mask stored as the decimal number that is written like the octal
  mask (644), the shifts of \<^verbatim>\<open>ParseLinuxPermissions\<close> for the mask stored as the
  number it denotes (420).
\<close>

lemma split_last_digit:
  fixes k c m :: int
  assumes "0 \<le> c" and "c < m"
  shows "(c + k * m) mod m = c" and "(c + k * m) div m = k"
proof -
  have "(c + k * m) mod m = c mod m" by (rule mod_mult_self1)
  then show "(c + k * m) mod m = c" using assms by simp
  have "m \<noteq> 0" using assms by simp
  then have "(c + k * m) div m = k + c div m" by (rule div_mult_self1)
  then show "(c + k * m) div m = k" using assms by simp
qed

lemma digit_decoder:
  assumes "0 \<le> a" "a \<le> 7" "0 \<le> b" "b \<le> 7" "0 \<le> c" "c \<le> 7"
  shows "GetOwnerPermissions (100 * a + 10 * b + c) = a
       \<and> GetGroupPermissions (100 * a + 10 * b + c) = b
       \<and> GetOtherPermissions (100 * a + 10 * b + c) = c"
proof -
  let ?p = "100 * a + 10 * b + c"
  let ?q = "10 * a + b"
  have n: "0 \<le> ?p" and n2: "0 \<le> ?q" using assms by simp_all
  have e1: "?p = c + ?q * 10" and e2: "?q = b + a * 10" and e3: "?p = (10 * b + c) + a * 100"
    by simp_all
  have c10: "c < 10" and b10: "b < 10" and a10: "a < 10" and bc: "10 * b + c < 100" "0 \<le> 10 * b + c"
    using assms by simp_all
  have m1: "?p mod 10 = c" and d10: "?p div 10 = ?q"
    using split_last_digit [OF assms(5) c10, of ?q] e1 by metis+
  have m2: "?q mod 10 = b"
    using split_last_digit(1) [OF assms(3) b10, of a] e2 by metis
  have d100: "?p div 100 = a"
    using split_last_digit(2) [OF bc(2) bc(1), of a] e3 by metis
  have m3: "a mod 10 = a" using assms(1) a10 by simp
  have "go_div ?p 100 = ?p div 100" by (rule go_div_nonneg [OF n]) simp
  then have g1: "go_div ?p 100 = a" using d100 by (simp only:)
  have "go_div ?p 10 = ?p div 10" by (rule go_div_nonneg [OF n]) simp
  then have g2: "go_div ?p 10 = ?q" using d10 by (simp only:)
  have "go_mod a 10 = a mod 10" by (rule go_mod_nonneg [OF assms(1)]) simp
  then have g3: "go_mod a 10 = a" using m3 by (simp only:)
  have "go_mod ?q 10 = ?q mod 10" by (rule go_mod_nonneg [OF n2]) simp
  then have g4: "go_mod ?q 10 = b" using m2 by (simp only:)
  have "go_mod ?p 10 = ?p mod 10" by (rule go_mod_nonneg [OF n]) simp
  then have g5: "go_mod ?p 10 = c" using m1 by (simp only:)
  show ?thesis
    by (simp only: GetOwnerPermissions_def GetGroupPermissions_def GetOtherPermissions_def
        g1 g2 g3 g4 g5 simp_thms)
qed

lemma shift_decoder:
  assumes "0 \<le> a" "a \<le> 7" "0 \<le> b" "b \<le> 7" "0 \<le> c" "c \<le> 7"
  shows "parse_ownerPerms (64 * a + 8 * b + c) = a
       \<and> parse_groupPerms (64 * a + 8 * b + c) = b
       \<and> parse_otherPerms (64 * a + 8 * b + c) = c"
proof -
  let ?p = "64 * a + 8 * b + c"
  let ?q = "8 * a + b"
  have and7: "x AND 7 = x mod 8" for x :: int
  proof -
    have "x AND 7 = take_bit 3 x" by (simp add: take_bit_eq_mask mask_eq_exp_minus_1)
    then show ?thesis by (simp add: take_bit_eq_mod)
  qed
  have e1: "?p = c + ?q * 8" and e2: "?q = b + a * 8" and e3: "?p = (8 * b + c) + a * 64"
    by simp_all
  have c8: "c < 8" and b8: "b < 8" and a8: "a < 8" and bc: "8 * b + c < 64" "0 \<le> 8 * b + c"
    using assms by simp_all
  have m1: "?p mod 8 = c" and d8: "?p div 8 = ?q"
    using split_last_digit [OF assms(5) c8, of ?q] e1 by metis+
  have m2: "?q mod 8 = b"
    using split_last_digit(1) [OF assms(3) b8, of a] e2 by metis
  have d64: "?p div 64 = a"
    using split_last_digit(2) [OF bc(2) bc(1), of a] e3 by metis
  have m3: "a mod 8 = a" using assms(1) a8 by simp
  have s6: "drop_bit 6 ?p = a" using d64 by (simp only: drop_bit_eq_div) simp
  have s3: "drop_bit 3 ?p = ?q" using d8 by (simp only: drop_bit_eq_div) simp
  show ?thesis
    using m1 m2 m3
    by (simp only: parse_ownerPerms_def parse_groupPerms_def parse_otherPerms_def and7 s6 s3 simp_thms)
qed

text \<open>
  Claim C3, at the input where the listing path departs from it. The principal 2 is not the
  owner (1) and belongs to the primary group 7 of an object with mask 604, whose group
  triad is empty. The claim lets the group triad decide, so reading is denied;
  \<^verbatim>\<open>calculateUserFilePermissions\<close> takes the zero group digit for "no group matched"
  and falls through to the others triad, so reading and downloading are granted.
\<close>

theorem C3_group_triad_zero_falls_to_others:
  "userInGroup [7] 7
   \<and> \<not> CanRead (GetGroupPermissions 604)
   \<and> CanRead (GetOtherPermissions 604)
   \<and> chk_CanRead (calculateUserFilePermissions 2 [7] (Some 1) (Some 7) 604)
   \<and> chk_CanDownload (calculateUserFilePermissions 2 [7] (Some 1) (Some 7) 604)"
  by (simp add: calculateUserFilePermissions_def effective_permission_def
      GetGroupPermissions_def GetOtherPermissions_def go_div_def go_mod_def CanRead_def
      HasPermission_def PermissionRead_def)

text \<open>
  Claim C4 as stated fails: a member of the admin system group of organization 1 who is
  neither the owner nor in the primary group of an object with mask 600 gets neither read
  nor write access, on the listing path and on the metadata path alike.
\<close>

theorem C4_admin_denied_counterexample:
  "is_admin_group 1 acme_admin
   \<and> \<not> chk_CanRead (calculateUserFilePermissions 2 (groupIDs_of [acme_admin]) (Some 1) (Some 7) 600)
   \<and> \<not> chk_CanWrite (calculateUserFilePermissions 2 (groupIDs_of [acme_admin]) (Some 1) (Some 7) 600)
   \<and> \<not> chk_CanRead (ParseLinuxPermissions 600 2 (Some 1) (Some 7) (groupIDs_of [acme_admin]))
   \<and> \<not> chk_CanWrite (ParseLinuxPermissions 600 2 (Some 1) (Some 7) (groupIDs_of [acme_admin]))"
  by (simp add: is_admin_group_def acme_admin_def groupIDs_of_def calculateUserFilePermissions_def
      effective_permission_def GetOtherPermissions_def go_mod_def CanRead_def CanWrite_def
      HasPermission_def PermissionRead_def PermissionWrite_def ParseLinuxPermissions_def
      parse_otherPerms_def perm_set_of_def Let_def)

text \<open>
  Claim C4, amended: permission resolution has no admin override. For a member of the
  admin system group whose admin group is not the primary group of the object, both
  resolvers return exactly what they return for the same principal without that
  membership; and on the listing path the member can read and write an object whose mask
  is 777, as every principal can.
\<close>

theorem C4_admin_membership_gives_no_override:
  assumes "is_admin_group orgID g" and "filePrimaryGroupID \<noteq> Some (grp_ID g)"
  shows "calculateUserFilePermissions userID (groupIDs_of (gs1 @ g # gs2)) fileOwnerID filePrimaryGroupID perm
           = calculateUserFilePermissions userID (groupIDs_of (gs1 @ gs2)) fileOwnerID filePrimaryGroupID perm
       \<and> ParseLinuxPermissions perm userID fileOwnerID filePrimaryGroupID (groupIDs_of (gs1 @ g # gs2))
           = ParseLinuxPermissions perm userID fileOwnerID filePrimaryGroupID (groupIDs_of (gs1 @ gs2))
       \<and> chk_CanRead (calculateUserFilePermissions userID (groupIDs_of (gs1 @ g # gs2)) fileOwnerID filePrimaryGroupID 777)
       \<and> chk_CanWrite (calculateUserFilePermissions userID (groupIDs_of (gs1 @ g # gs2)) fileOwnerID filePrimaryGroupID 777)"
proof -
  have eff: "effective_permission userID (groupIDs_of (gs1 @ g # gs2)) fileOwnerID filePrimaryGroupID perm
      = effective_permission userID (groupIDs_of (gs1 @ gs2)) fileOwnerID filePrimaryGroupID perm"
    using assms(2)
    by (cases filePrimaryGroupID)
       (simp_all add: effective_permission_def groupIDs_of_def group_loop_skip)
  have par: "ParseLinuxPermissions perm userID fileOwnerID filePrimaryGroupID (groupIDs_of (gs1 @ g # gs2))
           = ParseLinuxPermissions perm userID fileOwnerID filePrimaryGroupID (groupIDs_of (gs1 @ gs2))"
    using assms(2)
    by (cases filePrimaryGroupID)
       (simp_all add: ParseLinuxPermissions_def groupIDs_of_def userInGroup_skip Let_def)
  show ?thesis
    using eff par by (simp add: calculateUserFilePermissions_def effective_777 can_7)
qed

theorem C4_admin_membership_gives_no_override_witness:
  "is_admin_group 1 acme_admin \<and> Some (7::nat) \<noteq> Some (grp_ID acme_admin)
   \<and> calculateUserFilePermissions 2 (groupIDs_of ([] @ acme_admin # [])) (Some 1) (Some 7) 640
       = calculateUserFilePermissions 2 (groupIDs_of ([] @ [])) (Some 1) (Some 7) 640
   \<and> chk_CanRead (calculateUserFilePermissions 2 (groupIDs_of ([] @ acme_admin # [])) (Some 1) (Some 7) 777)"
proof -
  have a: "is_admin_group 1 acme_admin" by (simp add: is_admin_group_def acme_admin_def)
  have b: "Some (7::nat) \<noteq> Some (grp_ID acme_admin)" by (simp add: acme_admin_def)
  show ?thesis
    using a b C4_admin_membership_gives_no_override [OF a b, of 2 "[]" "[]" "Some 1" 640]
    by simp
qed

text \<open>
  Claim C10, at the stored default 644: the shifting decoder of
  \<^verbatim>\<open>ParseLinuxPermissions\<close> reads the triads (2, 0, 4), the decimal-digit decoder of
  \<^verbatim>\<open>Permission\<close> reads (6, 4, 4), and the owner of such an object may read it on the
  listing path but not on the metadata path.
\<close>

theorem C10_decoders_disagree_at_644:
  "(parse_ownerPerms 644, parse_groupPerms 644, parse_otherPerms 644) = (2, 0, 4)
   \<and> (GetOwnerPermissions 644, GetGroupPermissions 644, GetOtherPermissions 644) = (6, 4, 4)
   \<and> \<not> chk_CanRead (ParseLinuxPermissions 644 1 (Some 1) None [])
   \<and> chk_CanRead (calculateUserFilePermissions 1 [] (Some 1) None 644)"
  by (simp add: parse_ownerPerms_def parse_groupPerms_def parse_otherPerms_def
      GetOwnerPermissions_def GetGroupPermissions_def GetOtherPermissions_def go_div_def go_mod_def
      ParseLinuxPermissions_def perm_set_of_def calculateUserFilePermissions_def
      effective_permission_def CanRead_def HasPermission_def PermissionRead_def Let_def)

subsection \<open>Filename validation\<close>

lemma HasPrefix_iff: "HasPrefix s p \<longleftrightarrow> (\<exists>v. s = p @ v)"
  by (induction s p rule: HasPrefix.induct) auto

lemma Contains_iff: "Contains s d \<longleftrightarrow> (\<exists>u v. s = u @ d @ v)"
proof (induction s)
  case Nil
  then show ?case by auto
next
  case (Cons c cs)
  show ?case
  proof
    assume "Contains (c # cs) d"
    then consider "HasPrefix (c # cs) d" | "Contains cs d" by auto
    then show "\<exists>u v. c # cs = u @ d @ v"
    proof cases
      case 1
      then obtain v where "c # cs = d @ v" by (auto simp: HasPrefix_iff)
      then have "c # cs = [] @ d @ v" by simp
      then show ?thesis by blast
    next
      case 2
      then obtain u v where "cs = u @ d @ v" using Cons.IH by auto
      then have "c # cs = (c # u) @ d @ v" by simp
      then show ?thesis by blast
    qed
  next
    assume "\<exists>u v. c # cs = u @ d @ v"
    then obtain u v where e: "c # cs = u @ d @ v" by auto
    show "Contains (c # cs) d"
    proof (cases u)
      case Nil
      then have "HasPrefix (c # cs) d" using e by (auto simp: HasPrefix_iff)
      then show ?thesis by simp
    next
      case (Cons a u')
      then have "cs = u' @ d @ v" using e by simp
      then have "Contains cs d" using Cons.IH by blast
      then show ?thesis by simp
    qed
  qed
qed

lemma leading_space_rune:
  assumes "r \<in> set unicode_spaces"
  shows "leading_space (r @ s) = length r"
proof -
  from assms have "r = [CHR 0x09] \<or> r = [CHR 0x0A] \<or> r = [CHR 0x0B] \<or> r = [CHR 0x0C] \<or> r = [CHR 0x0D] \<or> r = [CHR 0x20]
      \<or> r = [CHR 0xC2, CHR 0x85] \<or> r = [CHR 0xC2, CHR 0xA0] \<or> r = [CHR 0xE1, CHR 0x9A, CHR 0x80]
      \<or> r = [CHR 0xE2, CHR 0x80, CHR 0x80] \<or> r = [CHR 0xE2, CHR 0x80, CHR 0x81]
      \<or> r = [CHR 0xE2, CHR 0x80, CHR 0x82] \<or> r = [CHR 0xE2, CHR 0x80, CHR 0x83]
      \<or> r = [CHR 0xE2, CHR 0x80, CHR 0x84] \<or> r = [CHR 0xE2, CHR 0x80, CHR 0x85]
      \<or> r = [CHR 0xE2, CHR 0x80, CHR 0x86] \<or> r = [CHR 0xE2, CHR 0x80, CHR 0x87]
      \<or> r = [CHR 0xE2, CHR 0x80, CHR 0x88] \<or> r = [CHR 0xE2, CHR 0x80, CHR 0x89]
      \<or> r = [CHR 0xE2, CHR 0x80, CHR 0x8A]
      \<or> r = [CHR 0xE2, CHR 0x80, CHR 0xA8] \<or> r = [CHR 0xE2, CHR 0x80, CHR 0xA9]
      \<or> r = [CHR 0xE2, CHR 0x80, CHR 0xAF] \<or> r = [CHR 0xE2, CHR 0x81, CHR 0x9F]
      \<or> r = [CHR 0xE3, CHR 0x80, CHR 0x80]"
    by (simp add: unicode_spaces_def)
  then show ?thesis
    by (elim disjE) (simp_all add: leading_space_def unicode_spaces_def)
qed

lemma unicode_spaces_nonempty: "r \<in> set unicode_spaces \<Longrightarrow> r \<noteq> []"
  by (auto simp: unicode_spaces_def)

lemma TrimLeftSpace_runes:
  "set runes \<subseteq> set unicode_spaces \<Longrightarrow> TrimLeftSpace (concat runes @ s) = TrimLeftSpace s"
proof (induction runes)
  case Nil
  then show ?case by simp
next
  case (Cons r runes)
  then have r: "r \<in> set unicode_spaces" by simp
  then have w: "leading_space (r @ concat runes @ s) = length r"
    by (rule leading_space_rune)
  moreover have "length r \<noteq> 0" using unicode_spaces_nonempty [OF r] by simp
  ultimately have "TrimLeftSpace (r @ concat runes @ s) = TrimLeftSpace (concat runes @ s)"
    by (subst TrimLeftSpace.simps) simp
  then show ?case using Cons by simp
qed

lemma leading_space_Nil: "leading_space [] = 0"
  by (simp add: leading_space_def unicode_spaces_def)

lemma trailing_space_Nil: "trailing_space [] = 0"
  by (simp add: trailing_space_def unicode_spaces_def)

lemma TrimSpace_whitespace_only: "whitespace_only s \<Longrightarrow> TrimSpace s = []"
proof -
  assume "whitespace_only s"
  then obtain runes where r: "set runes \<subseteq> set unicode_spaces" and s: "s = concat runes"
    by (auto simp: whitespace_only_def)
  have "TrimLeftSpace (concat runes @ []) = TrimLeftSpace []"
    using r by (rule TrimLeftSpace_runes)
  moreover have "TrimLeftSpace [] = []"
    by (subst TrimLeftSpace.simps) (simp add: leading_space_Nil)
  moreover have "TrimRightSpace [] = []"
    by (subst TrimRightSpace.simps) (simp add: trailing_space_Nil)
  ultimately show ?thesis using s by (simp add: TrimSpace_def)
qed

lemma dangerousChars_loop_valid:
  "vr_IsValid (dangerousChars_loop ds f r) = (vr_IsValid r \<and> (\<forall>d\<in>set ds. \<not> Contains f d))"
  by (induction ds arbitrary: r) auto

lemma dangerousChars_loop_errors:
  "length (vr_Errors (dangerousChars_loop ds f r)) = length (vr_Errors r) + length (filter (Contains f) ds)"
  by (induction ds arbitrary: r) auto

lemma validateFilename_valid:
  "vr_IsValid (validateFilename f r) =
     (vr_IsValid r \<and> TrimSpace f \<noteq> [] \<and> (\<forall>d\<in>set dangerousChars. \<not> Contains f d)
      \<and> length f \<le> 255 \<and> \<not> Contains f [CHR 0x00])"
  by (auto simp: validateFilename_def Let_def dangerousChars_loop_valid)

lemma validateFilename_errors_mono:
  "length (vr_Errors r) \<le> length (vr_Errors (validateFilename f r))"
  by (simp add: validateFilename_def Let_def dangerousChars_loop_errors)

lemma filter_nonempty: "x \<in> set xs \<Longrightarrow> P x \<Longrightarrow> 0 < length (filter P xs)"
  by (induction xs) auto

lemma validateFilename_errors:
  assumes "\<not> (TrimSpace f \<noteq> [] \<and> (\<forall>d\<in>set dangerousChars. \<not> Contains f d)
      \<and> length f \<le> 255 \<and> \<not> Contains f [CHR 0x00])"
  shows "length (vr_Errors r) < length (vr_Errors (validateFilename f r))"
proof (cases "TrimSpace f = []")
  case True
  then show ?thesis by (simp add: validateFilename_def)
next
  case False
  then consider d where "d \<in> set dangerousChars" "Contains f d" | "255 < length f" | "Contains f [CHR 0x00]"
    using assms by force
  then show ?thesis
  proof cases
    case 1
    then have "0 < length (filter (Contains f) dangerousChars)" by (rule filter_nonempty)
    then show ?thesis using False
      by (simp add: validateFilename_def Let_def dangerousChars_loop_errors)
  next
    case 2
    then show ?thesis using False
      by (simp add: validateFilename_def Let_def dangerousChars_loop_errors)
  next
    case 3
    then show ?thesis using False
      by (simp add: validateFilename_def Let_def dangerousChars_loop_errors)
  qed
qed

lemma utf8_chars_le: "utf8_chars s \<le> length s"
  by (simp add: utf8_chars_def)

text \<open>
  Claim C6: \<^verbatim>\<open>validateFilename\<close> marks the result invalid and appends at least one
  error for every filename that is empty or consists of white space only, that contains
  one of the substrings \<^verbatim>\<open>../\<close>, \<^verbatim>\<open>..\\<close>, \<^verbatim>\<open><\<close>, \<^verbatim>\<open>>\<close>, \<^verbatim>\<open>:\<close>,
  \<^verbatim>\<open>"\<close>, \<^verbatim>\<open>|\<close>, \<^verbatim>\<open>?\<close>, \<^verbatim>\<open>*\<close> or a NUL byte, or that is longer than 255
  characters (the code counts bytes, and a text has at least as many bytes as characters);
  in particular it rejects \<^verbatim>\<open>..\evil\<close>.
\<close>

theorem C6_validateFilename_rejects:
  assumes "whitespace_only filename
         \<or> (\<exists>d\<in>{''../'', [CHR ''.'', CHR ''.'', CHR 0x5C], ''<'', ''>'', '':'', [CHR 0x22],
                 ''|'', ''?'', ''*'', [CHR 0x00]}. \<exists>u v. filename = u @ d @ v)
         \<or> 255 < utf8_chars filename \<or> 255 < length filename"
  shows "\<not> vr_IsValid (validateFilename filename result)
       \<and> length (vr_Errors result) < length (vr_Errors (validateFilename filename result))
       \<and> \<not> vr_IsValid (validateFilename ([CHR ''.'', CHR ''.'', CHR 0x5C] @ ''evil'') result)"
proof -
  have bad: "\<not> (TrimSpace filename \<noteq> [] \<and> (\<forall>d\<in>set dangerousChars. \<not> Contains filename d)
      \<and> length filename \<le> 255 \<and> \<not> Contains filename [CHR 0x00])"
    using assms
  proof (elim disjE)
    assume "whitespace_only filename"
    then show ?thesis by (simp add: TrimSpace_whitespace_only)
  next
    assume "\<exists>d\<in>{''../'', [CHR ''.'', CHR ''.'', CHR 0x5C], ''<'', ''>'', '':'', [CHR 0x22],
                 ''|'', ''?'', ''*'', [CHR 0x00]}. \<exists>u v. filename = u @ d @ v"
    then obtain d u v where
      m: "d \<in> {''../'', [CHR ''.'', CHR ''.'', CHR 0x5C], ''<'', ''>'', '':'', [CHR 0x22],
                 ''|'', ''?'', ''*'', [CHR 0x00]}" and e: "filename = u @ d @ v"
      by blast
    from e have c: "Contains filename d" unfolding Contains_iff by blast
    from m have "d \<in> set dangerousChars \<or> d = [CHR 0x00]"
      unfolding dangerousChars_def by simp
    with c show ?thesis by blast
  next
    assume "255 < utf8_chars filename"
    then have "255 < length filename" using utf8_chars_le [of filename] by simp
    then show ?thesis by simp
  next
    assume "255 < length filename"
    then show ?thesis by simp
  qed
  have evil: "Contains ([CHR ''.'', CHR ''.'', CHR 0x5C] @ ''evil'') [CHR ''.'', CHR ''.'', CHR 0x5C]"
    by simp
  have "[CHR ''.'', CHR ''.'', CHR 0x5C] \<in> set dangerousChars" by (simp add: dangerousChars_def)
  with evil have "\<not> vr_IsValid (validateFilename ([CHR ''.'', CHR ''.'', CHR 0x5C] @ ''evil'') result)"
    unfolding validateFilename_valid by blast
  with bad show ?thesis
    by (simp add: validateFilename_valid validateFilename_errors)
qed

subsection \<open>Size validation\<close>

lemma validateFileSize_errors:
  "length (vr_Errors (validateFileSize fsize result)) =
     length (vr_Errors result) + (if fsize = 0 \<or> MaxFileSize < fsize then 1 else 0)"
  by (simp add: validateFileSize_def Let_def MaxFileSize_def)

lemma validateFileSize_valid:
  "vr_IsValid (validateFileSize fsize result) = (vr_IsValid result \<and> fsize \<noteq> 0 \<and> fsize \<le> MaxFileSize)"
  by (auto simp: validateFileSize_def Let_def)

lemma validateFileSize_same: "fsize \<noteq> 0 \<Longrightarrow> fsize \<le> MaxFileSize \<Longrightarrow> validateFileSize fsize result = result"
  by (simp add: validateFileSize_def)

lemma checkMaliciousContent_valid: "vr_IsValid (checkMaliciousContent f c r) \<Longrightarrow> vr_IsValid r"
  by (auto simp: checkMaliciousContent_def Let_def split: if_splits)

lemma validateFileExtension_valid: "vr_IsValid (validateFileExtension f r) \<Longrightarrow> vr_IsValid r"
  by (auto simp: validateFileExtension_def Let_def split: if_splits)

lemma ValidateFile_valid_size:
  assumes "vr_IsValid (fst (ValidateFile lib filename declaredMimeType content))"
  shows "\<not> rd_fail content \<and> rd_data content \<noteq> [] \<and> int (length (rd_data content)) \<le> MaxFileSize"
proof (cases "rd_fail content")
  case True
  then show ?thesis using assms by (simp add: ValidateFile_def io_Copy_def)
next
  case False
  let ?n = "int (length (rd_data content))"
  from assms False have "vr_IsValid (validateFileSize ?n
      (new_result\<lparr>vr_FileSize := ?n, vr_ContentHash := lib_sha256_hex lib (rd_data content)\<rparr>))"
    by (auto simp: ValidateFile_def io_Copy_def Let_def validateFilename_valid
        dest!: validateFileExtension_valid checkMaliciousContent_valid)
  then show ?thesis using False by (simp add: validateFileSize_valid)
qed

text \<open>
  Claim C5: the size check leaves the result untouched exactly when the size is neither 0
  nor above \<^verbatim>\<open>MaxFileSize\<close> (the upper bound of an upload); otherwise it marks the
  result invalid and appends one error. So an empty input is rejected, an input of exactly
  \<^verbatim>\<open>MaxFileSize\<close> bytes raises no size error, one of \<^verbatim>\<open>MaxFileSize + 1\<close> bytes is
  rejected, and \<^verbatim>\<open>ValidateFile\<close> accepts no content whose size fails the check.
\<close>

theorem C5_validateFileSize_boundaries:
  "(validateFileSize fsize result = result \<longleftrightarrow> fsize \<noteq> 0 \<and> fsize \<le> MaxFileSize)
   \<and> (fsize = 0 \<or> MaxFileSize < fsize \<longrightarrow>
        \<not> vr_IsValid (validateFileSize fsize result)
        \<and> length (vr_Errors (validateFileSize fsize result)) = length (vr_Errors result) + 1)
   \<and> \<not> vr_IsValid (validateFileSize 0 result)
   \<and> validateFileSize MaxFileSize result = result
   \<and> \<not> vr_IsValid (validateFileSize (MaxFileSize + 1) result)
   \<and> (vr_IsValid (fst (ValidateFile lib filename declaredMimeType content)) \<longrightarrow>
        rd_data content \<noteq> [] \<and> int (length (rd_data content)) \<le> MaxFileSize)"
proof -
  have "validateFileSize fsize result \<noteq> result" if "fsize = 0 \<or> MaxFileSize < fsize"
  proof
    assume "validateFileSize fsize result = result"
    then have "length (vr_Errors (validateFileSize fsize result)) = length (vr_Errors result)"
      by simp
    then show False using that by (simp add: validateFileSize_errors)
  qed
  then have a: "validateFileSize fsize result = result \<longleftrightarrow> fsize \<noteq> 0 \<and> fsize \<le> MaxFileSize"
    using validateFileSize_same [of fsize result] by fastforce
  have m: "(0::int) < MaxFileSize" by (simp add: MaxFileSize_def)
  show ?thesis
    using a m ValidateFile_valid_size [of lib filename declaredMimeType content]
    by (simp add: validateFileSize_valid validateFileSize_errors validateFileSize_same)
qed

lemma TrimLeftSpace_none: "leading_space s = 0 \<Longrightarrow> TrimLeftSpace s = s"
  by (subst TrimLeftSpace.simps) simp

lemma TrimRightSpace_none: "trailing_space s = 0 \<Longrightarrow> TrimRightSpace s = s"
  by (subst TrimRightSpace.simps) simp

lemma TrimSpace_x_bin: "TrimSpace ''x.bin'' = ''x.bin''"
  by (simp add: TrimSpace_def TrimLeftSpace_none TrimRightSpace_none leading_space_def
      trailing_space_def unicode_spaces_def)

lemma sample_ValidateFile:
  "ValidateFile sample_lib ''x.bin'' [] helloworld =
     (\<lparr>vr_IsValid = True, vr_DetectedMimeType = ''text/plain'',
       vr_ContentHash = ''936a185caaa266bb9cbe981e9e05cb78cd732b0b3280eb944412bb6f8f8f07af'',
       vr_FileSize = 10, vr_Errors = []\<rparr>, \<lparr>rd_data = [], rd_fail = False\<rparr>)"
  by (simp add: ValidateFile_def io_Copy_def helloworld_def sample_lib_def new_result_def
      validateFileSize_def MaxFileSize_def validateFilename_def TrimSpace_x_bin dangerousChars_def
      checkMaliciousContent_def validateFileExtension_def Ext_def dangerousExts_def
      ascii_lower_def Let_def)

theorem C5_validateFileSize_boundaries_witness:
  "((0::int) = 0 \<or> MaxFileSize < 0)
   \<and> \<not> vr_IsValid (validateFileSize 0 new_result)
   \<and> length (vr_Errors (validateFileSize 0 new_result)) = 1
   \<and> vr_IsValid (fst (ValidateFile sample_lib ''x.bin'' [] helloworld))
   \<and> rd_data helloworld \<noteq> [] \<and> int (length (rd_data helloworld)) \<le> MaxFileSize"
  using C5_validateFileSize_boundaries [of 0 new_result sample_lib "''x.bin''" "[]" helloworld]
  by (simp add: new_result_def sample_ValidateFile)

theorem C6_validateFilename_rejects_witness:
  "whitespace_only [CHR 0x20, CHR 0xC2, CHR 0xA0]
   \<and> \<not> vr_IsValid (validateFilename [CHR 0x20, CHR 0xC2, CHR 0xA0] new_result)
   \<and> length (vr_Errors new_result) < length (vr_Errors (validateFilename [CHR 0x20, CHR 0xC2, CHR 0xA0] new_result))"
proof -
  have "set [[CHR 0x20], [CHR 0xC2, CHR 0xA0]] \<subseteq> set unicode_spaces
        \<and> [CHR 0x20, CHR 0xC2, CHR 0xA0] = concat [[CHR 0x20], [CHR 0xC2, CHR 0xA0]]"
    by (simp add: unicode_spaces_def)
  then have w: "whitespace_only [CHR 0x20, CHR 0xC2, CHR 0xA0]"
    unfolding whitespace_only_def by blast
  then have h: "whitespace_only [CHR 0x20, CHR 0xC2, CHR 0xA0]
         \<or> (\<exists>d\<in>{''../'', [CHR ''.'', CHR ''.'', CHR 0x5C], ''<'', ''>'', '':'', [CHR 0x22],
                 ''|'', ''?'', ''*'', [CHR 0x00]}. \<exists>u v. [CHR 0x20, CHR 0xC2, CHR 0xA0] = u @ d @ v)
         \<or> 255 < utf8_chars [CHR 0x20, CHR 0xC2, CHR 0xA0] \<or> 255 < length [CHR 0x20, CHR 0xC2, CHR 0xA0]"
    by blast
  show ?thesis
    using w C6_validateFilename_rejects [OF h, of new_result] by blast
qed

subsection \<open>Storage keys\<close>

lemma take2_nth: "2 \<le> length s \<Longrightarrow> take 2 s = [s ! 0, s ! 1]"
  by (cases s; cases "tl s") auto

lemma go_slice_head: "4 \<le> length s \<Longrightarrow> go_slice s 0 2 = Some [s ! 0, s ! 1]"
  by (simp add: go_slice_def take2_nth)

lemma go_slice_next: "4 \<le> length s \<Longrightarrow> go_slice s 2 4 = Some [s ! 2, s ! 3]"
  by (simp add: go_slice_def take2_nth)

lemma split_scan_no_sep:
  "CHR ''/'' \<notin> set a \<Longrightarrow> split_scan ''/'' 0 piece a = [rev piece @ a]"
  by (induction a arbitrary: piece) auto

lemma split_scan_piece:
  "CHR ''/'' \<notin> set a \<Longrightarrow>
     split_scan ''/'' 0 piece (a @ CHR ''/'' # rest) = (rev piece @ a) # split_scan ''/'' 0 [] rest"
  by (induction a arbitrary: piece) auto

lemma hex_no_slash: "list_all (\<lambda>c. c \<in> set ''0123456789abcdef'') s \<Longrightarrow> CHR ''/'' \<notin> set s"
  by (induction s) auto

text \<open>
  Claim C7: for a fingerprint of 64 lower-case hexadecimal digits, the key that the upload
  service generates, and the one the repository generates, is
  \<^verbatim>\<open>files/<fp[0:2]>/<fp[2:4]>/<fp>\<close>; split at the slashes it has exactly the four
  parts \<^verbatim>\<open>files\<close>, the first two digits, the next two, and the fingerprint.
\<close>

theorem C7_storage_key:
  assumes "is_fingerprint fp"
  shows "generateStoragePath fp = Some (spec_storage_key fp)
       \<and> repository_generateStoragePath fp = Some (spec_storage_key fp)
       \<and> Split (spec_storage_key fp) ''/'' = [''files'', [fp ! 0, fp ! 1], [fp ! 2, fp ! 3], fp]"
proof -
  from assms have len: "4 \<le> length fp" and hex: "list_all (\<lambda>c. c \<in> set ''0123456789abcdef'') fp"
    by (simp_all add: is_fingerprint_def)
  have ns: "CHR ''/'' \<notin> set fp" using hex by (rule hex_no_slash)
  have n0: "fp ! 0 \<in> set fp" "fp ! 1 \<in> set fp" "fp ! 2 \<in> set fp" "fp ! 3 \<in> set fp"
    using len by (auto intro!: nth_mem)
  then have na: "CHR ''/'' \<notin> set [fp ! 0, fp ! 1]" and nb: "CHR ''/'' \<notin> set [fp ! 2, fp ! 3]"
    using ns by auto
  have nf: "CHR ''/'' \<notin> set ''files''" by simp
  have "Split (spec_storage_key fp) ''/''
      = split_scan ''/'' 0 [] (''files'' @ CHR ''/'' # ([fp ! 0, fp ! 1] @ CHR ''/'' # ([fp ! 2, fp ! 3] @ CHR ''/'' # fp)))"
    by (simp add: Split_def spec_storage_key_def)
  also have "\<dots> = ''files'' # split_scan ''/'' 0 [] ([fp ! 0, fp ! 1] @ CHR ''/'' # ([fp ! 2, fp ! 3] @ CHR ''/'' # fp))"
    using split_scan_piece [OF nf, of "[]"] by simp
  also have "\<dots> = ''files'' # [fp ! 0, fp ! 1] # split_scan ''/'' 0 [] ([fp ! 2, fp ! 3] @ CHR ''/'' # fp)"
    using split_scan_piece [OF na, of "[]"] by simp
  also have "\<dots> = ''files'' # [fp ! 0, fp ! 1] # [fp ! 2, fp ! 3] # split_scan ''/'' 0 [] fp"
    using split_scan_piece [OF nb, of "[]"] by simp
  also have "\<dots> = [''files'', [fp ! 0, fp ! 1], [fp ! 2, fp ! 3], fp]"
    using split_scan_no_sep [OF ns, of "[]"] by simp
  finally have sp: "Split (spec_storage_key fp) ''/'' = [''files'', [fp ! 0, fp ! 1], [fp ! 2, fp ! 3], fp]" .
  show ?thesis
    using len sp
    by (simp add: generateStoragePath_def repository_generateStoragePath_def go_slice_head
        go_slice_next spec_storage_key_def)
qed

lemma sample_fingerprint:
  "is_fingerprint ''936a185caaa266bb9cbe981e9e05cb78cd732b0b3280eb944412bb6f8f8f07af''"
  by (simp add: is_fingerprint_def)

theorem C7_storage_key_witness:
  "is_fingerprint ''936a185caaa266bb9cbe981e9e05cb78cd732b0b3280eb944412bb6f8f8f07af''
   \<and> generateStoragePath ''936a185caaa266bb9cbe981e9e05cb78cd732b0b3280eb944412bb6f8f8f07af''
       = Some ''files/93/6a/936a185caaa266bb9cbe981e9e05cb78cd732b0b3280eb944412bb6f8f8f07af''"
  using sample_fingerprint C7_storage_key [OF sample_fingerprint]
  by (simp add: spec_storage_key_def)

subsection \<open>Deleting a reference\<close>

lemma GetUserFile_deleted:
  assumes "\<forall>u\<in>set (st_user_files s). uf_ID u = fid \<longrightarrow> uf_IsDeleted u"
  shows "\<exists>err. GetUserFile env s uid fid = Inl err"
proof (cases "env_query_fails env")
  case True
  then show ?thesis by (simp add: GetUserFile_def)
next
  case False
  have "find (\<lambda>u. uf_ID u = fid \<and> uf_UserID u = uid \<and> \<not> uf_IsDeleted u) (st_user_files s) = None"
    using assms by (auto simp: find_None_iff)
  then show ?thesis using False by (simp add: GetUserFile_def)
qed

lemma DeleteFile_deleted:
  assumes "del_userID c = Some uid" and "del_fileId c = Some fid"
      and "\<forall>u\<in>set (st_user_files s). uf_ID u = fid \<longrightarrow> uf_IsDeleted u"
  shows "DeleteFile env s c = ((404, ''File not found''), s)"
proof -
  obtain err where "GetUserFile env s uid fid = Inl err"
    using GetUserFile_deleted [OF assms(3)] by blast
  then show ?thesis using assms(1,2) by (simp add: DeleteFile_def)
qed

lemma DeleteFile_again_deleted:
  assumes "del_userID c = Some uid" and "del_fileId c = Some fid"
      and "\<forall>u\<in>set (st_user_files s). uf_ID u = fid \<longrightarrow> uf_IsDeleted u"
  shows "DeleteFile_again envs s c = (replicate (length envs) (404, ''File not found''), s)"
  by (induction envs) (simp_all add: DeleteFile_deleted [OF assms])

lemma GetUserFile_id: "GetUserFile env s uid fid = Inr u \<Longrightarrow> uf_ID u = fid"
  by (auto simp: GetUserFile_def find_Some_iff split: if_splits option.splits)

lemma SoftDelete_marks:
  assumes "SoftDeleteUserFile env st fid = Inr st'" and "u \<in> set (st_user_files st')" and "uf_ID u = fid"
  shows "uf_IsDeleted u"
proof -
  from assms(1) have "st_user_files st' =
      map (\<lambda>u. if uf_ID u = fid then u\<lparr>uf_IsDeleted := True\<rparr> else u) (st_user_files st)"
    by (auto simp: SoftDeleteUserFile_def split: if_splits)
  with assms(2) obtain v where "v \<in> set (st_user_files st)"
      and "u = (if uf_ID v = fid then v\<lparr>uf_IsDeleted := True\<rparr> else v)"
    by auto
  with assms(3) show ?thesis by (cases "uf_ID v = fid") auto
qed

lemma DeleteFile_ok:
  assumes "DeleteFile env st c = ((200, msg), st')"
  shows "\<exists>uid fid. del_userID c = Some uid \<and> del_fileId c = Some fid
           \<and> (\<forall>u\<in>set (st_user_files st'). uf_ID u = fid \<longrightarrow> uf_IsDeleted u)"
proof -
  from assms obtain uid where uid: "del_userID c = Some uid"
    by (cases "del_userID c") (simp_all add: DeleteFile_def)
  from assms uid obtain fid where fid: "del_fileId c = Some fid"
    by (cases "del_fileId c") (simp_all add: DeleteFile_def)
  from assms uid fid obtain u where u: "GetUserFile env st uid fid = Inr u"
    by (cases "GetUserFile env st uid fid") (simp_all add: DeleteFile_def)
  then have id: "uf_ID u = fid" by (rule GetUserFile_id)
  from assms uid fid u have "SoftDeleteUserFile env st (uf_ID u) = Inr st'"
    by (cases "SoftDeleteUserFile env st (uf_ID u)")
       (simp_all add: DeleteFile_def split: if_splits)
  with id have sd: "SoftDeleteUserFile env st fid = Inr st'" by simp
  have "\<forall>u\<in>set (st_user_files st'). uf_ID u = fid \<longrightarrow> uf_IsDeleted u"
    using SoftDelete_marks [OF sd] by blast
  with uid fid show ?thesis by blast
qed

text \<open>
  Claim C9: once \<^verbatim>\<open>DeleteFile\<close> has answered a request with 200, every repetition of
  the request, whatever happens to the database during it, is answered with 404 "File not
  found" and not with 500, the state stays as the first call left it, and every row with
  the id of the reference is marked deleted.
\<close>

theorem C9_delete_reference_idempotent:
  assumes "DeleteFile env st c = ((200, msg), st')"
  shows "fst (DeleteFile_again envs st' c) = replicate (length envs) (404, ''File not found'')
       \<and> snd (DeleteFile_again envs st' c) = st'
       \<and> (\<forall>u\<in>set (st_user_files st'). Some (uf_ID u) = del_fileId c \<longrightarrow> uf_IsDeleted u)"
proof -
  obtain uid fid where c: "del_userID c = Some uid" "del_fileId c = Some fid"
    and d: "\<forall>u\<in>set (st_user_files st'). uf_ID u = fid \<longrightarrow> uf_IsDeleted u"
    using DeleteFile_ok [OF assms] by blast
  show ?thesis
    using c d by (simp add: DeleteFile_again_deleted [OF c d])
qed

theorem C9_delete_reference_idempotent_witness:
  "DeleteFile no_faults one_reference delete_101 =
     ((200, ''File deleted successfully''),
      one_reference\<lparr>st_user_files := [sample_reference\<lparr>uf_IsDeleted := True\<rparr>]\<rparr>)
   \<and> fst (DeleteFile_again [no_faults, no_faults\<lparr>env_query_fails := True\<rparr>]
            (one_reference\<lparr>st_user_files := [sample_reference\<lparr>uf_IsDeleted := True\<rparr>]\<rparr>) delete_101)
       = [(404, ''File not found''), (404, ''File not found'')]"
proof -
  have h: "DeleteFile no_faults one_reference delete_101 =
     ((200, ''File deleted successfully''),
      one_reference\<lparr>st_user_files := [sample_reference\<lparr>uf_IsDeleted := True\<rparr>]\<rparr>)"
    by (simp add: DeleteFile_def GetUserFile_def SoftDeleteUserFile_def no_faults_def
        one_reference_def empty_state_def sample_reference_def delete_101_def)
  show ?thesis
    using h C9_delete_reference_idempotent [OF h, of "[no_faults, no_faults\<lparr>env_query_fails := True\<rparr>]"]
    by simp
qed

subsection \<open>Uploads and deduplication\<close>










text \<open>
  A reference with an empty folder path is stored in the folder \<^verbatim>\<open>/\<close>, and there it
  meets the unique constraint against a reference of the same user and name.
\<close>

lemma CreateUserFile_empty_folder_is_root:
  assumes "\<not> env_write_fails env" and "u \<in> set (st_user_files st)"
      and "uf_UserID u = uf_UserID v" and "uf_UserFilename u = uf_UserFilename v"
      and "uf_FolderPath u = ''/''" and "uf_FolderPath v = []"
  shows "CreateUserFile env st v = Inl ErrDuplicateKey"
  using assms by (auto simp: CreateUserFile_def UserFile_defaults_def stored_folder_def Let_def)






subsection \<open>The stream to the virus scanner\<close>

lemma replicate_pos: "0 < n \<Longrightarrow> replicate n x = x # replicate (n - 1) x"
  by (cases n) simp_all

lemma stream_content_A:
  "stream_content \<lparr>rd_data = ''A'', rd_fail = False\<rparr> sent = (None, sent @ ''00000001A'')"
  apply (subst stream_content.simps)
  apply (subst stream_content.simps)
  apply (simp add: Reader_Read_def sprintf_08x_def pad_zero_def digits_of_last digit_char_def
      replicate_pos)
  done

lemma Contains_FOUND: "Contains (''stream: Eicar-Test-Signature FOUND'' @ [CHR 0x0A]) ''FOUND''"
  by simp

lemma be32_1: "be32 (Suc 0) = [CHR 0x00, CHR 0x00, CHR 0x00, CHR 0x01]"
proof -
  have "char_of (0::nat) = CHR 0x00" and "char_of (Suc 0) = CHR 0x01"
    by code_simp+
  then show ?thesis by (simp add: be32_def)
qed

lemma stream_content_reads_on:
  "\<not> rd_fail content \<Longrightarrow> \<exists>body. stream_content content sent = (None, sent @ body)"
proof (induction content sent rule: stream_content.induct)
  case (1 content sent)
  show ?case
  proof (cases "rd_data content = []")
    case True
    then have "stream_content content sent = (None, sent @ [])"
      using 1(2) by (subst stream_content.simps) (simp add: Reader_Read_def)
    then show ?thesis by blast
  next
    case False
    let ?chunk = "take 8192 (rd_data content)"
    let ?rest = "content\<lparr>rd_data := drop 8192 (rd_data content)\<rparr>"
    let ?sent = "sent @ sprintf_08x (length ?chunk) @ ?chunk"
    have rd: "Reader_Read 8192 content = ((?chunk, None), ?rest)"
      using False 1(2) by (simp add: Reader_Read_def)
    have pos: "0 < length ?chunk" using False by simp
    have step: "stream_content content sent = stream_content ?rest ?sent"
      using rd pos by (subst stream_content.simps) simp
    have "\<exists>body. stream_content ?rest ?sent = (None, ?sent @ body)"
    proof (rule 1(1) [of "(?chunk, None)" ?rest ?chunk None ?sent])
      show "((?chunk, None), ?rest) = Reader_Read 8192 content" using rd by simp
      show "?sent = (if 0 < length ?chunk then sent @ sprintf_08x (length ?chunk) @ ?chunk else sent)"
        using pos by simp
      show "\<not> rd_fail ?rest" using 1(2) by simp
    qed simp_all
    then obtain body where "stream_content ?rest ?sent = (None, ?sent @ body)" by blast
    with step have "stream_content content sent
        = (None, sent @ (sprintf_08x (length ?chunk) @ ?chunk @ body))" by simp
    then show ?thesis by blast
  qed
qed

lemma scan_wire_ends_in_text:
  assumes "av_dial_error av = None" and "av_command_error av = None" and "\<not> rd_fail content"
  shows "last (snd (scanForViruses True av content)) = CHR ''0''
       \<and> last (spec_instream_wire chunks) = CHR 0x00
       \<and> snd (scanForViruses True av content) \<noteq> spec_instream_wire chunks"
proof -
  obtain body where b: "stream_content content (''nINSTREAM'' @ [CHR 0x0A])
      = (None, (''nINSTREAM'' @ [CHR 0x0A]) @ body)"
    using stream_content_reads_on [OF assms(3)] by blast
  have w: "last (snd (scanForViruses True av content)) = CHR ''0''"
    using assms(1,2) b by (cases "av_response av") (simp_all add: scanForViruses_def Let_def)
  have s: "last (spec_instream_wire chunks) = CHR 0x00"
    by (simp add: spec_instream_wire_def)
  have "CHR ''0'' \<noteq> CHR 0x00" by simp
  with w s show ?thesis by metis
qed

text \<open>
  Claim C8, at a content of the one byte \<^verbatim>\<open>A\<close> with a daemon that answers. The
  claim has the length of a chunk sent as 4 bytes in big-endian order and the stream
  ended by 4 zero bytes: 19 bytes in all. \<^verbatim>\<open>scanForViruses\<close> writes the length as the
  8 characters of \<^verbatim>\<open>%08x\<close> and ends the stream with the 8 characters
  \<^verbatim>\<open>00000000\<close>: 27 bytes. The command and the parsing of the response are as the
  claim says.
\<close>

theorem C8_length_prefix_is_hex_text:
  "snd (scanForViruses True clamd_clean \<lparr>rd_data = ''A'', rd_fail = False\<rparr>)
     = ''nINSTREAM'' @ [CHR 0x0A] @ ''00000001'' @ ''A'' @ ''00000000''
   \<and> spec_instream_wire [''A'']
     = ''nINSTREAM'' @ [CHR 0x0A] @ [CHR 0x00, CHR 0x00, CHR 0x00, CHR 0x01] @ ''A''
       @ [CHR 0x00, CHR 0x00, CHR 0x00, CHR 0x00]
   \<and> snd (scanForViruses True clamd_clean \<lparr>rd_data = ''A'', rd_fail = False\<rparr>)
       \<noteq> spec_instream_wire [''A'']
   \<and> length (snd (scanForViruses True clamd_clean \<lparr>rd_data = ''A'', rd_fail = False\<rparr>)) = 27
   \<and> length (spec_instream_wire [''A'']) = 19
   \<and> vs_Status (fst (fst (scanForViruses True clamd_clean \<lparr>rd_data = ''A'', rd_fail = False\<rparr>))) = ''clean''
   \<and> fst (fst (scanForViruses True clamd_found \<lparr>rd_data = ''A'', rd_fail = False\<rparr>))
     = \<lparr>vs_Clean = False, vs_Engine = ''ClamAV'', vs_Status = ''infected'',
        vs_ThreatName = ''Eicar-Test-Signature'', vs_Error = []\<rparr>"
  by (simp add: scanForViruses_def clamd_clean_def clamd_found_def stream_content_A
      parse_response_def Split_def new_scanResult_def spec_instream_wire_def be32_1 Let_def)

subsection \<open>Admission by the rate limiter\<close>

lemma Tokens_new: "Tokens (NewLimiter r b) now = of_int b"
proof -
  have "0 \<le> of_int (now - min 0 now) * r / 1000000000" if "0 < r"
    using that by simp
  then show ?thesis
    by (auto simp: Tokens_def NewLimiter_def Let_def min_def)
qed

lemma Allow_new: "1 \<le> b \<Longrightarrow> fst (Allow (NewLimiter r b) now) = True"
  by (simp add: Allow_def Tokens_new Let_def) (simp add: NewLimiter_def)

lemma RateLimitMiddleware_org_untouched:
  "rl_orgBuckets (snd (RateLimitMiddleware rl now v)) = rl_orgBuckets rl"
  by (auto simp: RateLimitMiddleware_def GetUserLimiter_def put_user_limiter_def Let_def
      split: option.splits ctx_value.splits prod.splits)

lemma RateLimitMiddleware_ignores_org:
  "fst (RateLimitMiddleware (rl\<lparr>rl_orgBuckets := orgBuckets\<rparr>) now v) = fst (RateLimitMiddleware rl now v)"
  by (auto simp: RateLimitMiddleware_def GetUserLimiter_def put_user_limiter_def Let_def
      split: option.splits ctx_value.splits prod.splits)

lemma fresh_user_admitted:
  assumes "rl_userBuckets rl u = None" and "1 \<le> rl_userBurst rl"
  shows "admitted (fst (RateLimitMiddleware rl now (Some (UUIDValue u))))
       \<and> (\<forall>u'. u' \<noteq> u \<longrightarrow> rl_userBuckets (snd (RateLimitMiddleware rl now (Some (UUIDValue u)))) u'
                              = rl_userBuckets rl u')
       \<and> rl_userBurst (snd (RateLimitMiddleware rl now (Some (UUIDValue u)))) = rl_userBurst rl"
proof -
  obtain ok l where a: "Allow (NewLimiter (rl_userRPS rl) (rl_userBurst rl)) now = (ok, l)"
    by (cases "Allow (NewLimiter (rl_userRPS rl) (rl_userBurst rl)) now")
  with Allow_new [OF assms(2), of "rl_userRPS rl" now] have ok: "ok" by simp
  show ?thesis
    using assms(1) a ok
    by (simp add: RateLimitMiddleware_def GetUserLimiter_def put_user_limiter_def Let_def)
qed

lemma serve_fresh_users:
  assumes "distinct us" and "\<forall>u\<in>set us. rl_userBuckets rl u = None" and "1 \<le> rl_userBurst rl"
  shows "map admitted (fst (serve rl now us)) = replicate (length us) True
       \<and> rl_orgBuckets (snd (serve rl now us)) = rl_orgBuckets rl"
  using assms
proof (induction us arbitrary: rl)
  case Nil
  then show ?case by simp
next
  case (Cons u us)
  obtain a rl' where m: "RateLimitMiddleware rl now (Some (UUIDValue u)) = (a, rl')"
    by (cases "RateLimitMiddleware rl now (Some (UUIDValue u))")
  have fu: "rl_userBuckets rl u = None" using Cons.prems(2) by simp
  from fresh_user_admitted [OF fu Cons.prems(3), of now] m
  have a: "admitted a" and same: "\<forall>u'. u' \<noteq> u \<longrightarrow> rl_userBuckets rl' u' = rl_userBuckets rl u'"
    and burst: "rl_userBurst rl' = rl_userBurst rl"
    by simp_all
  have org: "rl_orgBuckets rl' = rl_orgBuckets rl"
    using RateLimitMiddleware_org_untouched [of rl now "Some (UUIDValue u)"] m by simp
  have d: "distinct us" and nu: "u \<notin> set us" using Cons.prems(1) by simp_all
  have fresh: "\<forall>v\<in>set us. rl_userBuckets rl' v = None"
    using same nu Cons.prems(2) by auto
  have b: "1 \<le> rl_userBurst rl'" using burst Cons.prems(3) by simp
  from Cons.IH [OF d fresh b]
  have "map admitted (fst (serve rl' now us)) = replicate (length us) True"
    and "rl_orgBuckets (snd (serve rl' now us)) = rl_orgBuckets rl'"
    by simp_all
  then show ?case using m a org by (simp add: split_beta)
qed

lemma float64_of_int_small: "\<bar>x\<bar> < 2 ^ 53 \<Longrightarrow> float64_of_int x = of_int x"
proof -
  assume "\<bar>x\<bar> < 2 ^ 53"
  then have "excess_bits \<bar>x\<bar> = 0" by (subst excess_bits.simps) simp
  then have "float64_of_int x = of_int (sgn x * \<bar>x\<bar>)"
    by (simp add: float64_of_int_def Let_def)
  then show ?thesis by (simp add: sgn_mult_abs)
qed

lemma wrap64_small: "- (2 ^ 63) \<le> x \<Longrightarrow> x < 2 ^ 63 \<Longrightarrow> wrap64 x = x"
  by (simp add: wrap64_def)

lemma org_limiter_small:
  "fst (GetOrgLimiter (NewRateLimiter small_config) 0 7)
     = \<lparr>lim_limit = 10, lim_burst = 10, lim_tokens = 10, lim_last = 0\<rparr>"
  by (simp add: GetOrgLimiter_def NewRateLimiter_def small_config_def NewLimiter_def
      wrap64_small float64_of_int_small)

lemma Allow_step:
  "0 \<le> t \<Longrightarrow> t \<le> 10 \<Longrightarrow>
   Allow \<lparr>lim_limit = 10, lim_burst = 10, lim_tokens = t, lim_last = 0\<rparr> 0
     = (1 \<le> t, \<lparr>lim_limit = 10, lim_burst = 10, lim_tokens = (if 1 \<le> t then t - 1 else t), lim_last = 0\<rparr>)"
  by (simp add: Allow_def Tokens_def Let_def min_def)

text \<open>
  The bucket of a principal under the default configuration: of six requests at the same
  time the sixth is refused, and half a second later one more is admitted.
\<close>

lemma user_bucket_scenario:
  "map admitted (fst (serve (NewRateLimiter default_config) 0 [1, 1, 1, 1, 1, 1]))
     = [True, True, True, True, True, False]
   \<and> map admitted (fst (serve (snd (serve (NewRateLimiter default_config) 0 [1, 1, 1, 1, 1, 1]))
                            500000000 [1, 1]))
     = [True, False]"
  by (simp add: NewRateLimiter_def default_config_def RateLimitMiddleware_def GetUserLimiter_def
      put_user_limiter_def NewLimiter_def Allow_def Tokens_def Let_def min_def
      float64_of_int_small)

lemma RateLimitMiddleware_admits_iff_user_token:
  "admitted (fst (RateLimitMiddleware rl now (Some (UUIDValue u))))
     \<longleftrightarrow> fst (Allow (fst (GetUserLimiter rl now u)) now)"
  by (auto simp: RateLimitMiddleware_def Let_def split: prod.splits)

text \<open>
  Claim C2, on eleven requests that arrive at the same time from eleven principals of
  one organization, under a configuration of one request per second and a burst of one.
  \<^verbatim>\<open>NewRateLimiter\<close> gives the organization ten times the limits of a principal, so
  the bucket that \<^verbatim>\<open>GetOrgLimiter\<close> makes for the organization holds ten tokens and
  refuses the eleventh taken at that time, and the claim has the eleventh request
  denied. \<^verbatim>\<open>RateLimitMiddleware\<close> admits all eleven: it consults the bucket of the
  principal only and never creates or reads a bucket of an organization.
\<close>

theorem C2_organization_bucket_not_consulted:
  "map admitted (fst (serve (NewRateLimiter small_config) 0 [1, 2, 3, 4, 5, 6, 7, 8, 9, 10, 11]))
     = [True, True, True, True, True, True, True, True, True, True, True]
   \<and> rl_orgBuckets (snd (serve (NewRateLimiter small_config) 0 [1, 2, 3, 4, 5, 6, 7, 8, 9, 10, 11]))
     = Map.empty
   \<and> Allow_times 11 (fst (GetOrgLimiter (NewRateLimiter small_config) 0 7)) 0
     = [True, True, True, True, True, True, True, True, True, True, False]"
proof -
  have d: "distinct [1, 2, 3, 4, 5, 6, 7, 8, 9, 10, 11 :: nat]" by simp
  have f: "\<forall>u\<in>set [1, 2, 3, 4, 5, 6, 7, 8, 9, 10, 11 :: nat].
             rl_userBuckets (NewRateLimiter small_config) u = None"
    by (simp add: NewRateLimiter_def)
  have b: "1 \<le> rl_userBurst (NewRateLimiter small_config)"
    by (simp add: NewRateLimiter_def small_config_def)
  have o: "rl_orgBuckets (NewRateLimiter small_config) = Map.empty"
    by (simp add: NewRateLimiter_def)
  have t: "Allow_times 11 (fst (GetOrgLimiter (NewRateLimiter small_config) 0 7)) 0
     = [True, True, True, True, True, True, True, True, True, True, False]"
    unfolding org_limiter_small by (simp add: Allow_step eval_nat_numeral)
  from serve_fresh_users [OF d f b, of 0] o t show ?thesis
    by (simp del: serve.simps)
qed

end
